theory Spec2Isabelle
  imports Complex_Main "HOL-Library.Sublist"
begin

section \<open>JavaScript strings\<close>

text \<open>
  The extraction engine (\<^verbatim>\<open>ruleBasedExtractor.ts\<close>) is a pure function of strings. A JavaScript
  string is a sequence of 16-bit code units, and every string method and pattern of the source
  (none has the \<^verbatim>\<open>u\<close> flag) works on code units. A code unit is embedded as the integer that
  \<^verbatim>\<open>charCodeAt\<close> returns for it, a string as the list of its code units; the strings of JavaScript
  are the lists with all members from 0 to 65535, and what is proved of every list holds of them.
  The source file is pure ASCII: its string and pattern literals are written with the
  characters of the prover and turned into code units by \<open>cu\<close> and \<open>js\<close>.
\<close>

type_synonym codeunit = int
type_synonym jstring = "codeunit list"

definition cu :: "char \<Rightarrow> codeunit" where
  "cu c = of_char c"

definition js :: "string \<Rightarrow> jstring" where
  "js s = map cu s"

lemma js_inject [simp]: "js a = js b \<longleftrightarrow> a = b"
proof -
  have "inj cu"
    by (rule injI) (simp add: cu_def)
  then show ?thesis
    unfolding js_def by (rule inj_map_eq_map)
qed

lemma js_length [simp]: "length (js s) = length s"
  by (simp add: js_def)

lemma js_empty [simp]: "js s = [] \<longleftrightarrow> s = []"
  by (simp add: js_def)

definition isWhiteSpace :: "codeunit \<Rightarrow> bool" where
  \<comment> \<open>WhiteSpace and LineTerminator of ECMAScript, what \<^verbatim>\<open>trim\<close> strips and \<^verbatim>\<open>\s\<close> matches: TAB,
      LF, VT, FF, CR, SP, NBSP, U+1680, U+2000 to U+200A, LS, PS, U+202F, U+205F, U+3000 and
      U+FEFF.\<close>
  "isWhiteSpace c = (c \<in> set [0x09, 0x0A, 0x0B, 0x0C, 0x0D, 0x20, 0xA0, 0x1680, 0x2028, 0x2029, 0x202F,
                              0x205F, 0x3000, 0xFEFF]
                     \<or> (0x2000 \<le> c \<and> c \<le> 0x200A))"

definition inRange :: "codeunit \<Rightarrow> codeunit \<Rightarrow> codeunit \<Rightarrow> bool" where
  "inRange a b c = (a \<le> c \<and> c \<le> b)"

definition lowerChar :: "codeunit \<Rightarrow> codeunit" where
  \<comment> \<open>The lower-case partner of a capital of Basic Latin or Latin-1: A-Z and 0xC0-0xDE
      without 0xD7 move up by 32.\<close>
  "lowerChar c = (if inRange 0x41 0x5A c \<or> (inRange 0xC0 0xDE c \<and> c \<noteq> 0xD7) then c + 32 else c)"

definition canonChar :: "codeunit \<Rightarrow> codeunit" where
  \<comment> \<open>Canonicalize of ECMAScript for the \<^verbatim>\<open>i\<close> flag (upper-casing of one code unit) on Basic
      Latin and Latin-1: a-z and 0xE0-0xFE without 0xF7 move down by 32. Canonicalize maps no
      code unit from 128 on to one below 128, and a white-space character only to itself. Every
      pattern of the source is made of ASCII characters and of \<^verbatim>\<open>\s\<close>, \<^verbatim>\<open>\d\<close>, \<^verbatim>\<open>\w\<close>, so whether
      a code unit from 128 on matches an atom does not depend on its canonical form, and the
      case pairs beyond Latin-1 are left out.\<close>
  "canonChar c = (if inRange 0x61 0x7A c \<or> (inRange 0xE0 0xFE c \<and> c \<noteq> 0xF7) then c - 32 else c)"

definition lowerUnit :: "codeunit \<Rightarrow> jstring" where
  \<comment> \<open>\<^verbatim>\<open>toLowerCase\<close> on one code unit. The source compares every lower-cased text with ASCII
      keywords, cuts it at a position, or replaces its characters outside \<^verbatim>\<open>\w\<close> and \<^verbatim>\<open>\s\<close> by
      spaces; so of the lower-case form of a code unit from 128 on only the length and the
      ASCII characters in it are observed. The mappings that change the length or give a code
      unit below 256 are written out: U+0130, the one that gives two code units, U+212A (Kelvin
      sign, to k), U+0178, U+1E9E and U+212B (to Latin-1). The other capitals beyond Latin-1 stay
      as they are.\<close>
  "lowerUnit c =
     (if c = 0x130 then [0x69, 0x307]
      else if c = 0x212A then [0x6B]
      else if c = 0x178 then [0xFF]
      else if c = 0x1E9E then [0xDF]
      else if c = 0x212B then [0xE5]
      else [lowerChar c])"

definition toLowerCase :: "jstring \<Rightarrow> jstring" where
  "toLowerCase s = concat (map lowerUnit s)"

definition trimStart :: "jstring \<Rightarrow> jstring" where
  "trimStart s = dropWhile isWhiteSpace s"

definition trimEnd :: "jstring \<Rightarrow> jstring" where
  "trimEnd s = rev (dropWhile isWhiteSpace (rev s))"

definition trim :: "jstring \<Rightarrow> jstring" where
  "trim s = trimEnd (trimStart s)"

fun strIncludes :: "jstring \<Rightarrow> jstring \<Rightarrow> bool" where
  \<comment> \<open>\<^verbatim>\<open>s.includes(t)\<close> (the name \<open>includes\<close> is a keyword of the prover)\<close>
  "strIncludes [] t = (t = [])"
| "strIncludes (c # cs) t = (prefix t (c # cs) \<or> strIncludes cs t)"

fun splitCharAcc :: "codeunit \<Rightarrow> jstring \<Rightarrow> jstring \<Rightarrow> jstring list" where
  "splitCharAcc sep acc [] = [rev acc]"
| "splitCharAcc sep acc (c # cs) =
     (if c = sep then rev acc # splitCharAcc sep [] cs else splitCharAcc sep (c # acc) cs)"

definition splitChar :: "codeunit \<Rightarrow> jstring \<Rightarrow> jstring list" where
  \<comment> \<open>\<^verbatim>\<open>s.split(sep)\<close> for a separator of one character; the result is never empty.\<close>
  "splitChar sep s = splitCharAcc sep [] s"

fun joinWith :: "jstring \<Rightarrow> jstring list \<Rightarrow> jstring" where
  "joinWith sep [] = []"
| "joinWith sep [x] = x"
| "joinWith sep (x # y # ys) = x @ sep @ joinWith sep (y # ys)"

definition substring :: "nat \<Rightarrow> nat \<Rightarrow> jstring \<Rightarrow> jstring" where
  \<comment> \<open>\<^verbatim>\<open>s.substring(a, b)\<close> for \<open>a \<le> b\<close>, the only way the source calls it.\<close>
  "substring a b s = take (b - a) (drop a s)"

fun indexOfChar :: "codeunit \<Rightarrow> jstring \<Rightarrow> nat option" where
  \<comment> \<open>\<^verbatim>\<open>s.indexOf(c)\<close>, with \<open>None\<close> for \<^verbatim>\<open>-1\<close>.\<close>
  "indexOfChar c [] = None"
| "indexOfChar c (x # xs) = (if x = c then Some 0 else map_option Suc (indexOfChar c xs))"

section \<open>Regular expressions\<close>

text \<open>
  The source is written with regular-expression literals. They are embedded as values of the
  datatype \<open>rx\<close>, one constructor per construct the source uses, and run by a backtracking
  matcher that follows the ECMAScript semantics (15.10.2 / 22.2.2): a matcher takes a
  continuation and a state, alternatives are tried left to right, a greedy quantifier tries one
  more iteration before the continuation and a lazy one the continuation first, an iteration
  that consumes nothing once the minimum is reached fails, and a look-around runs its body
  with the identity continuation.

  A state is the text before the current position (reversed), the text from it on, and the
  captures made so far (latest first). No pattern of the source has the \<^verbatim>\<open>m\<close>, \<^verbatim>\<open>u\<close> or
  \<^verbatim>\<open>y\<close> flag or a backreference. The only group under a quantifier whose value is read is under
  \<^verbatim>\<open>?\<close>, so the reset of captures at the start of an iteration is not modelled.
\<close>

datatype cls = CChar codeunit | CRange codeunit codeunit | CDigit | CSpace | CWord

fun clsHas :: "cls \<Rightarrow> codeunit \<Rightarrow> bool" where
  "clsHas (CChar a) c = (c = a)"
| "clsHas (CRange a b) c = inRange a b c"
| "clsHas CDigit c = inRange 0x30 0x39 c"   \<comment> \<open>\<^verbatim>\<open>\d\<close>: 0-9\<close>
| "clsHas CSpace c = isWhiteSpace c"
| "clsHas CWord c = (inRange 0x61 0x7A c \<or> inRange 0x41 0x5A c \<or> inRange 0x30 0x39 c \<or> c = 0x5F)"
    \<comment> \<open>\<^verbatim>\<open>\w\<close>: a-z, A-Z, 0-9 and the underscore\<close>

datatype rx =
    Lit codeunit                  \<comment> \<open>a pattern character\<close>
  | Set bool "cls list"           \<comment> \<open>\<^verbatim>\<open>[...]\<close> (\<open>False\<close>) or \<^verbatim>\<open>[^...]\<close> (\<open>True\<close>)\<close>
  | Dot                           \<comment> \<open>\<^verbatim>\<open>.\<close>\<close>
  | Eps
  | Seq rx rx
  | Alt rx rx                     \<comment> \<open>\<^verbatim>\<open>a|b\<close>\<close>
  | Rep nat "nat option" bool rx  \<comment> \<open>\<^verbatim>\<open>a{min,max}\<close>, \<open>None\<close> for no maximum; \<open>True\<close> greedy, \<open>False\<close> lazy\<close>
  | Grp nat rx                    \<comment> \<open>capturing group number n\<close>
  | Ahead rx                      \<comment> \<open>\<^verbatim>\<open>(?=a)\<close>\<close>
  | NotAhead rx                   \<comment> \<open>\<^verbatim>\<open>(?!a)\<close>\<close>
  | Behind rx                     \<comment> \<open>\<^verbatim>\<open>(?<=a)\<close>\<close>
  | Bol                           \<comment> \<open>\<^verbatim>\<open>^\<close>\<close>
  | Eol                           \<comment> \<open>\<^verbatim>\<open>$\<close>\<close>

type_synonym captures = "(nat \<times> jstring) list"
type_synonym mstate = "jstring \<times> jstring \<times> captures"

definition charOk :: "bool \<Rightarrow> bool \<Rightarrow> rx \<Rightarrow> codeunit \<Rightarrow> bool" where
  "charOk ic ds r c = (case r of
      Lit a \<Rightarrow> (if ic then canonChar a = canonChar c else a = c)
    | Set neg cs \<Rightarrow> (neg \<noteq> (if ic then (\<exists>k \<in> set cs. clsHas k (canonChar c) \<or> clsHas k (lowerChar (canonChar c)))
                           else (\<exists>k \<in> set cs. clsHas k c)))
    | Dot \<Rightarrow> (ds \<or> (c \<noteq> 0x0A \<and> c \<noteq> 0x0D \<and> c \<noteq> 0x2028 \<and> c \<noteq> 0x2029))
    | _ \<Rightarrow> False)"

fun decMax :: "nat option \<Rightarrow> nat option" where
  "decMax None = None"
| "decMax (Some n) = Some (n - 1)"

fun rxrev :: "rx \<Rightarrow> rx" where
  \<comment> \<open>The pattern read right to left: a look-behind matches its body backwards from the current
      position.\<close>
  "rxrev (Seq a b) = Seq (rxrev b) (rxrev a)"
| "rxrev (Alt a b) = Alt (rxrev a) (rxrev b)"
| "rxrev (Rep mn mx g a) = Rep mn mx g (rxrev a)"
| "rxrev (Grp n a) = Grp n (rxrev a)"
| "rxrev Bol = Eol"
| "rxrev Eol = Bol"
| "rxrev (Ahead a) = Behind (rxrev a)"
| "rxrev (Behind a) = Ahead (rxrev a)"
| "rxrev r = r"

fun rxsize :: "rx \<Rightarrow> nat" where
  "rxsize (Seq a b) = rxsize a + rxsize b + 1"
| "rxsize (Alt a b) = rxsize a + rxsize b + 1"
| "rxsize (Rep mn mx g a) = rxsize a + 1 + mn + (case mx of None \<Rightarrow> 0 | Some n \<Rightarrow> n)"
| "rxsize (Grp n a) = rxsize a + 1"
| "rxsize (Ahead a) = rxsize a + 1"
| "rxsize (NotAhead a) = rxsize a + 1"
| "rxsize (Behind a) = rxsize a + 1"
| "rxsize r = 0"

lemma rxsize_rxrev [simp]: "rxsize (rxrev r) = rxsize r"
  by (induction r rule: rxrev.induct) simp_all

function (sequential) rxm :: "bool \<Rightarrow> bool \<Rightarrow> rx \<Rightarrow> (mstate \<Rightarrow> mstate option) \<Rightarrow> mstate \<Rightarrow> mstate option" where
  "rxm ic ds (Lit a) k (pre, suf, caps) = (case suf of [] \<Rightarrow> None
      | c # cs \<Rightarrow> if charOk ic ds (Lit a) c then k (c # pre, cs, caps) else None)"
| "rxm ic ds (Set neg m) k (pre, suf, caps) = (case suf of [] \<Rightarrow> None
      | c # cs \<Rightarrow> if charOk ic ds (Set neg m) c then k (c # pre, cs, caps) else None)"
| "rxm ic ds Dot k (pre, suf, caps) = (case suf of [] \<Rightarrow> None
      | c # cs \<Rightarrow> if charOk ic ds Dot c then k (c # pre, cs, caps) else None)"
| "rxm ic ds Eps k st = k st"
| "rxm ic ds (Seq a b) k st = rxm ic ds a (\<lambda>st'. rxm ic ds b k st') st"
| "rxm ic ds (Alt a b) k st = (case rxm ic ds a k st of Some r \<Rightarrow> Some r | None \<Rightarrow> rxm ic ds b k st)"
| "rxm ic ds (Rep mn mx g a) k st =
     (if mx = Some 0 then k st
      else if 0 < mn then rxm ic ds a (\<lambda>st'. rxm ic ds (Rep (mn - 1) (decMax mx) g a) k st') st
      else if g then
        (case rxm ic ds a (\<lambda>st'. if length (fst (snd st')) < length (fst (snd st))
                                   then rxm ic ds (Rep 0 (decMax mx) g a) k st' else None) st of
           Some r \<Rightarrow> Some r | None \<Rightarrow> k st)
      else
        (case k st of Some r \<Rightarrow> Some r
         | None \<Rightarrow> rxm ic ds a (\<lambda>st'. if length (fst (snd st')) < length (fst (snd st))
                                   then rxm ic ds (Rep 0 (decMax mx) g a) k st' else None) st))"
| "rxm ic ds (Grp n a) k (pre, suf, caps) =
     rxm ic ds a (\<lambda>(pre', suf', caps'). k (pre', suf', (n, rev (take (length pre' - length pre) pre')) # caps'))
       (pre, suf, caps)"
| "rxm ic ds (Ahead a) k (pre, suf, caps) = (case rxm ic ds a Some (pre, suf, caps) of None \<Rightarrow> None
      | Some (pre', suf', caps') \<Rightarrow> k (pre, suf, caps'))"
| "rxm ic ds (NotAhead a) k st = (case rxm ic ds a Some st of None \<Rightarrow> k st | Some _ \<Rightarrow> None)"
| "rxm ic ds (Behind a) k (pre, suf, caps) = (case rxm ic ds (rxrev a) Some (suf, pre, caps) of None \<Rightarrow> None
      | Some _ \<Rightarrow> k (pre, suf, caps))"
| "rxm ic ds Bol k (pre, suf, caps) = (if pre = [] then k (pre, suf, caps) else None)"
| "rxm ic ds Eol k (pre, suf, caps) = (if suf = [] then k (pre, suf, caps) else None)"
  by pat_completeness auto
termination
  by (relation "(\<lambda>(ic, ds, r, k, st). rxsize r) <*mlex*> measure (\<lambda>(ic, ds, r, k, st). length (fst (snd st)))")
     (auto simp: wf_mlex mlex_prod_def split: option.splits)

subsection \<open>RegExp objects and the string methods that take them\<close>

datatype regexp = RegExp rx string  \<comment> \<open>the pattern and the flags of a literal \<^verbatim>\<open>/pattern/flags\<close>\<close>

fun execAt :: "regexp \<Rightarrow> jstring \<Rightarrow> jstring \<Rightarrow> mstate option" where
  \<comment> \<open>One match attempt at the position between \<open>pre\<close> (reversed) and \<open>suf\<close>.\<close>
  "execAt (RegExp r fl) pre suf = rxm (CHR ''i'' \<in> set fl) (CHR ''s'' \<in> set fl) r Some (pre, suf, [])"

fun isGlobal :: "regexp \<Rightarrow> bool" where
  "isGlobal (RegExp r fl) = (CHR ''g'' \<in> set fl)"

fun rxSearch :: "regexp \<Rightarrow> jstring \<Rightarrow> jstring \<Rightarrow> (jstring \<times> mstate) option" where
  \<comment> \<open>\<^verbatim>\<open>exec\<close>: the leftmost position from the current one on at which the pattern matches,
      with the text before that position (reversed) and the final state of the match.\<close>
  "rxSearch re pre [] = (case execAt re pre [] of None \<Rightarrow> None | Some st \<Rightarrow> Some (pre, st))"
| "rxSearch re pre (c # cs) = (case execAt re pre (c # cs) of
       None \<Rightarrow> rxSearch re (c # pre) cs
     | Some st \<Rightarrow> Some (pre, st))"

definition matched :: "jstring \<Rightarrow> mstate \<Rightarrow> jstring" where
  \<comment> \<open>The matched text of a match that began after \<open>pre\<close> and ended in state \<open>st\<close>.\<close>
  "matched pre st = rev (take (length (fst st) - length pre) (fst st))"

definition rxTest :: "regexp \<Rightarrow> jstring \<Rightarrow> bool" where
  \<comment> \<open>\<^verbatim>\<open>re.test(s)\<close> for a pattern without the \<^verbatim>\<open>g\<close> flag (every pattern the source tests).\<close>
  "rxTest re s = (rxSearch re [] s \<noteq> None)"

definition stringMatch :: "jstring \<Rightarrow> regexp \<Rightarrow> (jstring \<times> captures) option" where
  \<comment> \<open>\<^verbatim>\<open>s.match(re)\<close> for a pattern without the \<^verbatim>\<open>g\<close> flag: the match, element 0 and the
      groups, or \<open>None\<close> for \<^verbatim>\<open>null\<close>.\<close>
  "stringMatch s re = (case rxSearch re [] s of None \<Rightarrow> None
     | Some (pre, st) \<Rightarrow> Some (matched pre st, snd (snd st)))"

definition group :: "nat \<Rightarrow> jstring \<times> captures \<Rightarrow> jstring option" where
  \<comment> \<open>Element n of a match; \<open>None\<close> is \<^verbatim>\<open>undefined\<close> (the group took no part).\<close>
  "group n m = (if n = 0 then Some (fst m) else map_of (snd m) n)"

function matchLoop :: "regexp \<Rightarrow> jstring \<Rightarrow> jstring \<Rightarrow> jstring list" where
  "matchLoop re pre suf = (case execAt re pre suf of
       None \<Rightarrow> (case suf of [] \<Rightarrow> [] | c # cs \<Rightarrow> matchLoop re (c # pre) cs)
     | Some st \<Rightarrow>
         if length (fst (snd st)) < length suf then matched pre st # matchLoop re (fst st) (fst (snd st))
         else matched pre st # (case suf of [] \<Rightarrow> [] | c # cs \<Rightarrow> matchLoop re (c # pre) cs))"
  by pat_completeness auto
termination
  by (relation "measure (\<lambda>(re, pre, suf). length suf)") auto

definition stringMatchAll :: "jstring \<Rightarrow> regexp \<Rightarrow> jstring list option" where
  \<comment> \<open>\<^verbatim>\<open>s.match(re)\<close> for a pattern with the \<^verbatim>\<open>g\<close> flag: all matches, or \<^verbatim>\<open>null\<close> when there is
      none. After an empty match the search resumes one character further.\<close>
  "stringMatchAll s re = (case matchLoop re [] s of [] \<Rightarrow> None | ms \<Rightarrow> Some ms)"

datatype rpart = RText jstring | RGroup nat  \<comment> \<open>a replacement string: literal text and \<^verbatim>\<open>$n\<close>\<close>

fun expand :: "rpart list \<Rightarrow> captures \<Rightarrow> jstring" where
  "expand [] caps = []"
| "expand (RText t # ps) caps = t @ expand ps caps"
| "expand (RGroup n # ps) caps = (case map_of caps n of None \<Rightarrow> [] | Some g \<Rightarrow> g) @ expand ps caps"

function replaceLoop :: "regexp \<Rightarrow> rpart list \<Rightarrow> jstring \<Rightarrow> jstring \<Rightarrow> jstring" where
  "replaceLoop re rp pre suf = (case execAt re pre suf of
       None \<Rightarrow> (case suf of [] \<Rightarrow> [] | c # cs \<Rightarrow> c # replaceLoop re rp (c # pre) cs)
     | Some st \<Rightarrow>
         if length (fst (snd st)) < length suf
         then expand rp (snd (snd st)) @ replaceLoop re rp (fst st) (fst (snd st))
         else expand rp (snd (snd st)) @ (case suf of [] \<Rightarrow> [] | c # cs \<Rightarrow> c # replaceLoop re rp (c # pre) cs))"
  by pat_completeness auto
termination
  by (relation "measure (\<lambda>(re, rp, pre, suf). length suf)") auto

definition stringReplace :: "jstring \<Rightarrow> regexp \<Rightarrow> rpart list \<Rightarrow> jstring" where
  \<comment> \<open>\<^verbatim>\<open>s.replace(re, replacement)\<close>: every match when the pattern has the \<^verbatim>\<open>g\<close> flag, the first
      one otherwise.\<close>
  "stringReplace s re rp =
     (if isGlobal re then replaceLoop re rp [] s
      else (case rxSearch re [] s of None \<Rightarrow> s
        | Some (pre, st) \<Rightarrow> rev pre @ expand rp (snd (snd st)) @ fst (snd st)))"

fun groupCount :: "rx \<Rightarrow> nat" where
  "groupCount (Seq a b) = max (groupCount a) (groupCount b)"
| "groupCount (Alt a b) = max (groupCount a) (groupCount b)"
| "groupCount (Rep mn mx g a) = groupCount a"
| "groupCount (Grp n a) = max n (groupCount a)"
| "groupCount (Ahead a) = groupCount a"
| "groupCount (NotAhead a) = groupCount a"
| "groupCount (Behind a) = groupCount a"
| "groupCount r = 0"

fun spliced :: "regexp \<Rightarrow> captures \<Rightarrow> jstring list" where
  \<comment> \<open>\<^verbatim>\<open>split\<close> puts the groups of each separator match into the result. A group that took no
      part would be \<^verbatim>\<open>undefined\<close> there; the separator patterns of the source have at most
      group 1, on every path of a look-ahead, so each separator match sets it.\<close>
  "spliced (RegExp r fl) caps = List.map_filter (map_of caps) [1 ..< Suc (groupCount r)]"

function splitLoop :: "regexp \<Rightarrow> jstring \<Rightarrow> jstring \<Rightarrow> jstring \<Rightarrow> jstring list" where
  "splitLoop re acc pre [] = [rev acc]"
| "splitLoop re acc pre (c # cs) = (case execAt re pre (c # cs) of
       None \<Rightarrow> splitLoop re (c # acc) (c # pre) cs
     | Some st \<Rightarrow>
         if length (fst (snd st)) < length (c # cs)
         then rev acc # spliced re (snd (snd st)) @ splitLoop re [] (fst st) (fst (snd st))
         else if acc = [] then splitLoop re (c # acc) (c # pre) cs
         else rev acc # spliced re (snd (snd st)) @ splitLoop re [c] (c # pre) cs)"
  by pat_completeness auto
termination
  by (relation "measure (\<lambda>(re, acc, pre, suf). length suf)") auto

definition stringSplit :: "jstring \<Rightarrow> regexp \<Rightarrow> jstring list" where
  \<comment> \<open>\<^verbatim>\<open>s.split(re)\<close> (RegExp.prototype[Symbol.split]): \<open>acc\<close> holds the text since the end \<open>p\<close> of
      the last separator, the pattern is tried at each position \<open>q\<close>, and a match that ends at \<open>p\<close>
      is passed over. An empty match at \<open>q > p\<close> splits there and, matching again at \<open>q = p\<close>, is
      passed over by one character.\<close>
  "stringSplit s re =
     (if s = [] then (if execAt re [] [] \<noteq> None then [] else [[]])
      else splitLoop re [] [] s)"

subsection \<open>Writing patterns\<close>

abbreviation Star :: "rx \<Rightarrow> rx" where "Star r \<equiv> Rep 0 None True r"
abbreviation Plus :: "rx \<Rightarrow> rx" where "Plus r \<equiv> Rep 1 None True r"
abbreviation Opt :: "rx \<Rightarrow> rx" where "Opt r \<equiv> Rep 0 (Some 1) True r"
abbreviation StarLazy :: "rx \<Rightarrow> rx" where "StarLazy r \<equiv> Rep 0 None False r"
abbreviation PlusLazy :: "rx \<Rightarrow> rx" where "PlusLazy r \<equiv> Rep 1 None False r"
abbreviation Digit :: rx where "Digit \<equiv> Set False [CDigit]"
abbreviation Space :: rx where "Space \<equiv> Set False [CSpace]"
abbreviation NL :: rx where "NL \<equiv> Lit 0x0A"
abbreviation Ch :: "char \<Rightarrow> rx" where "Ch c \<equiv> Lit (cu c)"
abbreviation One :: "char \<Rightarrow> cls" where "One c \<equiv> CChar (cu c)"
abbreviation Range :: "char \<Rightarrow> char \<Rightarrow> cls" where "Range a b \<equiv> CRange (cu a) (cu b)"

fun Str :: "string \<Rightarrow> rx" where
  "Str [] = Eps"
| "Str [c] = Lit (cu c)"
| "Str (c # cs) = Seq (Lit (cu c)) (Str cs)"

fun Seqs :: "rx list \<Rightarrow> rx" where
  "Seqs [] = Eps"
| "Seqs [r] = r"
| "Seqs (r # rs) = Seq r (Seqs rs)"

fun Alts :: "rx list \<Rightarrow> rx" where
  "Alts [] = Eps"
| "Alts [r] = r"
| "Alts (r # rs) = Alt r (Alts rs)"

section \<open>Text normalizer\<close>

definition normalizeChar :: "codeunit \<Rightarrow> codeunit" where
  \<comment> \<open>The function mapped over the characters in \<^verbatim>\<open>normalizeText\<close>; \<open>code\<close> is
      \<^verbatim>\<open>char.charCodeAt(0)\<close>.\<close>
  "normalizeChar char = (let code = char in
     if (code \<ge> 0x0009 \<and> code \<le> 0x000D \<and> code \<noteq> 0x000A \<and> code \<noteq> 0x000D)
        \<or> code = 0x0020 \<or> code = 0x00A0 \<or> code = 0x1680
        \<or> (code \<ge> 0x2000 \<and> code \<le> 0x200A)
        \<or> code = 0x202F \<or> code = 0x205F \<or> code = 0x3000 \<or> code = 0xFEFF
     then 0x20 else char)"

definition spacesRegex :: regexp where
  \<comment> \<open>\<^verbatim>\<open>/ +/g\<close>\<close>
  "spacesRegex = RegExp (Plus (Ch CHR '' '')) ''g''"

definition normalizeText :: "jstring \<Rightarrow> jstring" where
  "normalizeText text =
     (if text = [] then text
      else trim (joinWith [0x0A] (map trim (splitChar 0x0A
             (stringReplace (map normalizeChar text) spacesRegex [RText (js '' '')])))))"

definition pageNumberPatterns :: "(regexp \<times> rpart list) list" where
  \<comment> \<open>Patterns 1 to 7 of \<^verbatim>\<open>removePageNumbers\<close> and the final \<^verbatim>\<open>/\n{3,}/g\<close>, each with its
      replacement.\<close>
  \<open>pageNumberPatterns = [
     \<comment> \<open>\<^verbatim>\<open>/\n\s*(\d{1,4})\s*\n(?!\s*\d+\.)/g\<close>\<close>
     (RegExp (Seqs [NL, Star Space, Grp 1 (Rep 1 (Some 4) True Digit), Star Space, NL,
                    NotAhead (Seqs [Star Space, Plus Digit, Ch CHR ''.''])]) ''g'',
      [RText [0x0A, 0x0A]]),
     \<comment> \<open>\<^verbatim>\<open>/\.\s*\n\s*(\d{1,4})\s*\n/g\<close>\<close>
     (RegExp (Seqs [Ch CHR ''.'', Star Space, NL, Star Space, Grp 1 (Rep 1 (Some 4) True Digit),
                    Star Space, NL]) ''g'',
      [RText [0x2E, 0x0A, 0x0A]]),
     \<comment> \<open>\<^verbatim>\<open>/\n\s*(\d{1,4})\s*\n\s*\n\s*(THIS|WHEREAS|BETWEEN|PARTIES)/gi\<close>\<close>
     (RegExp (Seqs [NL, Star Space, Grp 1 (Rep 1 (Some 4) True Digit), Star Space, NL, Star Space, NL,
                    Star Space,
                    Grp 2 (Alts [Str ''THIS'', Str ''WHEREAS'', Str ''BETWEEN'', Str ''PARTIES''])]) ''gi'',
      [RText [0x0A, 0x0A], RGroup 2]),
     \<comment> \<open>\<^verbatim>\<open>/\n\s*Page\s+\d+(\s+of\s+\d+)?\s*\n/gi\<close>\<close>
     (RegExp (Seqs [NL, Star Space, Str ''Page'', Plus Space, Plus Digit,
                    Opt (Grp 1 (Seqs [Plus Space, Str ''of'', Plus Space, Plus Digit])),
                    Star Space, NL]) ''gi'',
      [RText [0x0A, 0x0A]]),
     \<comment> \<open>\<^verbatim>\<open>/\n\s*[\[\(]\d{1,4}[\]\)]\s*\n/g\<close>\<close>
     (RegExp (Seqs [NL, Star Space, Set False [One CHR ''['', One CHR ''(''],
                    Rep 1 (Some 4) True Digit, Set False [One CHR '']'', One CHR '')''],
                    Star Space, NL]) ''g'',
      [RText [0x0A, 0x0A]]),
     \<comment> \<open>\<^verbatim>\<open>/\n\s*-\s*\d{1,4}\s*-\s*\n/g\<close>\<close>
     (RegExp (Seqs [NL, Star Space, Ch CHR ''-'', Star Space, Rep 1 (Some 4) True Digit, Star Space,
                    Ch CHR ''-'', Star Space, NL]) ''g'',
      [RText [0x0A, 0x0A]]),
     \<comment> \<open>\<^verbatim>\<open>/\n\s*(\d{1,4})\s*\n(?=\s*[A-Z]{2,})/g\<close>\<close>
     (RegExp (Seqs [NL, Star Space, Grp 1 (Rep 1 (Some 4) True Digit), Star Space, NL,
                    Ahead (Seqs [Star Space, Rep 2 None True (Set False [Range CHR ''A'' CHR ''Z''])])]) ''g'',
      [RText [0x0A, 0x0A]]),
     \<comment> \<open>\<^verbatim>\<open>/\n{3,}/g\<close>\<close>
     (RegExp (Rep 3 None True NL) ''g'',
      [RText [0x0A, 0x0A]])]\<close>

definition removePageNumbers :: "jstring \<Rightarrow> jstring" where
  \<comment> \<open>\<^verbatim>\<open>cleaned = text.replace(...)\<close>, then seven times \<^verbatim>\<open>cleaned = cleaned.replace(...)\<close>.\<close>
  "removePageNumbers text = fold (\<lambda>(re, rp) cleaned. stringReplace cleaned re rp) pageNumberPatterns text"

section \<open>Numbering schema registry and detector\<close>

record NumberingSchema =
  mainClause :: jstring
  subClause1 :: jstring
  subClause2 :: jstring
  subClause3 :: "jstring option"

definition upperAZ :: rx where
  \<comment> \<open>\<^verbatim>\<open>[A-Z]\<close>\<close>
  "upperAZ = Set False [Range CHR ''A'' CHR ''Z'']"

definition lowerAZ :: rx where
  \<comment> \<open>\<^verbatim>\<open>[a-z]\<close>\<close>
  "lowerAZ = Set False [Range CHR ''a'' CHR ''z'']"

definition setIVX :: rx where
  \<comment> \<open>\<^verbatim>\<open>[IVX]\<close>\<close>
  "setIVX = Set False [One CHR ''I'', One CHR ''V'', One CHR ''X'']"

definition romanUpper :: rx where
  \<comment> \<open>\<^verbatim>\<open>I{1,3}|IV|VI{0,3}|IX|XI{0,3}|XIV|XV|XVI{0,3}|XIX|XX[IVX]*\<close>\<close>
  "romanUpper = Alts [Rep 1 (Some 3) True (Ch CHR ''I''), Str ''IV'',
     Seq (Ch CHR ''V'') (Rep 0 (Some 3) True (Ch CHR ''I'')), Str ''IX'',
     Seq (Ch CHR ''X'') (Rep 0 (Some 3) True (Ch CHR ''I'')), Str ''XIV'', Str ''XV'',
     Seq (Str ''XV'') (Rep 0 (Some 3) True (Ch CHR ''I'')), Str ''XIX'',
     Seq (Str ''XX'') (Star setIVX)]"

definition romanLower :: rx where
  \<comment> \<open>\<^verbatim>\<open>i{1,3}|iv|vi{0,3}|ix|xi{0,3}|xiv|xv|xvi{0,3}|xix|xx[ivx]*\<close>\<close>
  "romanLower = Alts [Rep 1 (Some 3) True (Ch CHR ''i''), Str ''iv'',
     Seq (Ch CHR ''v'') (Rep 0 (Some 3) True (Ch CHR ''i'')), Str ''ix'',
     Seq (Ch CHR ''x'') (Rep 0 (Some 3) True (Ch CHR ''i'')), Str ''xiv'', Str ''xv'',
     Seq (Str ''xv'') (Rep 0 (Some 3) True (Ch CHR ''i'')), Str ''xix'',
     Seq (Str ''xx'') (Star (Set False [One CHR ''i'', One CHR ''v'', One CHR ''x'']))]"

definition getSchemaRegex :: "jstring \<Rightarrow> regexp option" where
  \<comment> \<open>The table \<^verbatim>\<open>patterns\<close> of \<^verbatim>\<open>getSchemaRegex\<close>, in its order; \<^verbatim>\<open>patterns[schemaType] || null\<close>.
      (Keys that name a member of \<^verbatim>\<open>Object.prototype\<close> are not schema identifiers and are looked
      up like any other absent key.)\<close>
  \<open>getSchemaRegex schemaType = map_of [
     \<comment> \<open>\<^verbatim>\<open>/^(\d+)\.\s+/\<close>\<close>
     (js ''numeric'', RegExp (Seqs [Bol, Grp 1 (Plus Digit), Ch CHR ''.'', Plus Space]) []),
     \<comment> \<open>\<^verbatim>\<open>/^(\d+)\)\s+/\<close>\<close>
     (js ''numeric-paren'', RegExp (Seqs [Bol, Grp 1 (Plus Digit), Ch CHR '')'', Plus Space]) []),
     \<comment> \<open>\<^verbatim>\<open>/^(\d+\.\d+)\s+/\<close>\<close>
     (js ''decimal'', RegExp (Seqs [Bol, Grp 1 (Seqs [Plus Digit, Ch CHR ''.'', Plus Digit]), Plus Space]) []),
     \<comment> \<open>\<^verbatim>\<open>/^([A-Z])\.\s+/\<close>\<close>
     (js ''alpha-upper'', RegExp (Seqs [Bol, Grp 1 upperAZ, Ch CHR ''.'', Plus Space]) []),
     \<comment> \<open>\<^verbatim>\<open>/^([a-z])\.\s+/\<close>\<close>
     (js ''alpha-lower'', RegExp (Seqs [Bol, Grp 1 lowerAZ, Ch CHR ''.'', Plus Space]) []),
     \<comment> \<open>\<^verbatim>\<open>/^([a-z])\)\s+/\<close>\<close>
     (js ''alpha-lower-paren'', RegExp (Seqs [Bol, Grp 1 lowerAZ, Ch CHR '')'', Plus Space]) []),
     \<comment> \<open>\<^verbatim>\<open>/^(I{1,3}|...|XX[IVX]*)\.\s+/\<close>\<close>
     (js ''roman-upper'', RegExp (Seqs [Bol, Grp 1 romanUpper, Ch CHR ''.'', Plus Space]) []),
     \<comment> \<open>\<^verbatim>\<open>/^(i{1,3}|...|xx[ivx]*)\.\s+/\<close>\<close>
     (js ''roman-lower'', RegExp (Seqs [Bol, Grp 1 romanLower, Ch CHR ''.'', Plus Space]) []),
     \<comment> \<open>\<^verbatim>\<open>/^(I{1,3}|...|XX[IVX]*)\)\s+/\<close>\<close>
     (js ''roman-upper-paren'', RegExp (Seqs [Bol, Grp 1 romanUpper, Ch CHR '')'', Plus Space]) []),
     \<comment> \<open>\<^verbatim>\<open>/^(i{1,3}|...|xx[ivx]*)\)\s+/\<close>\<close>
     (js ''roman-lower-paren'', RegExp (Seqs [Bol, Grp 1 romanLower, Ch CHR '')'', Plus Space]) []),
     \<comment> \<open>\<^verbatim>\<open>/^\((\d+)\)\s+/\<close>\<close>
     (js ''paren-numeric'', RegExp (Seqs [Bol, Ch CHR ''('', Grp 1 (Plus Digit), Ch CHR '')'', Plus Space]) []),
     \<comment> \<open>\<^verbatim>\<open>/^\(([a-z])\)\s+/\<close>\<close>
     (js ''paren-alpha'', RegExp (Seqs [Bol, Ch CHR ''('', Grp 1 lowerAZ, Ch CHR '')'', Plus Space]) []),
     \<comment> \<open>\<^verbatim>\<open>/^\((I{1,3}|...|XX[IVX]*)\)\s+/\<close>\<close>
     (js ''paren-roman-upper'', RegExp (Seqs [Bol, Ch CHR ''('', Grp 1 romanUpper, Ch CHR '')'', Plus Space]) []),
     \<comment> \<open>\<^verbatim>\<open>/^\((i{1,3}|...|xx[ivx]*)\)\s+/\<close>\<close>
     (js ''paren-roman-lower'', RegExp (Seqs [Bol, Ch CHR ''('', Grp 1 romanLower, Ch CHR '')'', Plus Space]) []),
     \<comment> \<open>\<^verbatim>\<open>/^Section\s+(\d+)\./i\<close>\<close>
     (js ''section'', RegExp (Seqs [Bol, Str ''Section'', Plus Space, Grp 1 (Plus Digit), Ch CHR ''.'']) ''i''),
     \<comment> \<open>\<^verbatim>\<open>/^Section\s+(\d+)\.(?!\d)/i\<close>\<close>
     (js ''section-decimal'', RegExp (Seqs [Bol, Str ''Section'', Plus Space, Grp 1 (Plus Digit), Ch CHR ''.'',
                                        NotAhead Digit]) ''i''),
     \<comment> \<open>\<^verbatim>\<open>/^(?:Article|ARTICLE)\s+([IVX]+|\d+)/i\<close>\<close>
     (js ''article'', RegExp (Seqs [Bol, Alts [Str ''Article'', Str ''ARTICLE''], Plus Space,
                                Grp 1 (Alts [Plus setIVX, Plus Digit])]) ''i''),
     \<comment> \<open>\<^verbatim>\<open>/^(\d+)\.0\s+/\<close>\<close>
     (js ''decimal-zero'', RegExp (Seqs [Bol, Grp 1 (Plus Digit), Ch CHR ''.'', Ch CHR ''0'', Plus Space]) []),
     \<comment> \<open>\<^verbatim>\<open>/^(\d+\.\d+\.\d+)\s+/\<close>\<close>
     (js ''decimal-triple'', RegExp (Seqs [Bol, Grp 1 (Seqs [Plus Digit, Ch CHR ''.'', Plus Digit, Ch CHR ''.'',
                                                         Plus Digit]), Plus Space]) [])
   ] schemaType\<close>

definition boundary :: rx where
  \<comment> \<open>\<^verbatim>\<open>(?:\n\s*|(?<=\.\s{1,3})|(?<=;\s{1,3}))\<close>, the head of the split patterns\<close>
  "boundary = Alts [Seq NL (Star Space),
     Behind (Seq (Ch CHR ''.'') (Rep 1 (Some 3) True Space)),
     Behind (Seq (Ch CHR '';'') (Rep 1 (Some 3) True Space))]"

definition boundaryWide :: rx where
  \<comment> \<open>\<^verbatim>\<open>(?:\n\s*|(?<=\.\s{1,3})|(?<=;\s{1,3})|(?<=\s{2,}))\<close>, the head of the two Section split
      patterns\<close>
  "boundaryWide = Alts [Seq NL (Star Space),
     Behind (Seq (Ch CHR ''.'') (Rep 1 (Some 3) True Space)),
     Behind (Seq (Ch CHR '';'') (Rep 1 (Some 3) True Space)),
     Behind (Rep 2 None True Space)]"

definition getSchemaSplitRegex :: "jstring \<Rightarrow> regexp option" where
  \<comment> \<open>The table \<^verbatim>\<open>patterns\<close> of \<^verbatim>\<open>getSchemaSplitRegex\<close>, in its order (it has no
      \<^verbatim>\<open>decimal-triple\<close>). Each pattern is the boundary followed by a look-ahead.\<close>
  \<open>getSchemaSplitRegex schemaType = map_of [
     \<comment> \<open>\<^verbatim>\<open>(?=\d+\.\s+[A-Z])\<close>\<close>
     (js ''numeric'', RegExp (Seq boundary (Ahead (Seqs [Plus Digit, Ch CHR ''.'', Plus Space, upperAZ]))) ''g''),
     \<comment> \<open>\<^verbatim>\<open>(?=\d+\)\s+[A-Z])\<close>\<close>
     (js ''numeric-paren'', RegExp (Seq boundary (Ahead (Seqs [Plus Digit, Ch CHR '')'', Plus Space, upperAZ]))) ''g''),
     \<comment> \<open>\<^verbatim>\<open>(?=\d+\.\d+\s+[A-Z])\<close>\<close>
     (js ''decimal'', RegExp (Seq boundary (Ahead (Seqs [Plus Digit, Ch CHR ''.'', Plus Digit, Plus Space, upperAZ]))) ''g''),
     \<comment> \<open>\<^verbatim>\<open>(?=[A-Z]\.\s+[A-Z])\<close>\<close>
     (js ''alpha-upper'', RegExp (Seq boundary (Ahead (Seqs [upperAZ, Ch CHR ''.'', Plus Space, upperAZ]))) ''g''),
     \<comment> \<open>\<^verbatim>\<open>(?=[a-z]\.\s+[A-Z])\<close>\<close>
     (js ''alpha-lower'', RegExp (Seq boundary (Ahead (Seqs [lowerAZ, Ch CHR ''.'', Plus Space, upperAZ]))) ''g''),
     \<comment> \<open>\<^verbatim>\<open>(?=[a-z]\)\s+[A-Z])\<close>\<close>
     (js ''alpha-lower-paren'', RegExp (Seq boundary (Ahead (Seqs [lowerAZ, Ch CHR '')'', Plus Space, upperAZ]))) ''g''),
     \<comment> \<open>\<^verbatim>\<open>(?=(I{1,3}|...|XX[IVX]*)\.\s+[A-Z])\<close>\<close>
     (js ''roman-upper'', RegExp (Seq boundary (Ahead (Seqs [Grp 1 romanUpper, Ch CHR ''.'', Plus Space, upperAZ]))) ''g''),
     \<comment> \<open>\<^verbatim>\<open>(?=(i{1,3}|...|xx[ivx]*)\.\s+)\<close>\<close>
     (js ''roman-lower'', RegExp (Seq boundary (Ahead (Seqs [Grp 1 romanLower, Ch CHR ''.'', Plus Space]))) ''g''),
     \<comment> \<open>\<^verbatim>\<open>(?=(I{1,3}|...|XX[IVX]*)\)\s+[A-Z])\<close>\<close>
     (js ''roman-upper-paren'', RegExp (Seq boundary (Ahead (Seqs [Grp 1 romanUpper, Ch CHR '')'', Plus Space, upperAZ]))) ''g''),
     \<comment> \<open>\<^verbatim>\<open>(?=(i{1,3}|...|xx[ivx]*)\)\s+)\<close>\<close>
     (js ''roman-lower-paren'', RegExp (Seq boundary (Ahead (Seqs [Grp 1 romanLower, Ch CHR '')'', Plus Space]))) ''g''),
     \<comment> \<open>\<^verbatim>\<open>(?=\(\d+\)\s+)\<close>\<close>
     (js ''paren-numeric'', RegExp (Seq boundary (Ahead (Seqs [Ch CHR ''('', Plus Digit, Ch CHR '')'', Plus Space]))) ''g''),
     \<comment> \<open>\<^verbatim>\<open>(?=\([a-z]\)\s+)\<close>\<close>
     (js ''paren-alpha'', RegExp (Seq boundary (Ahead (Seqs [Ch CHR ''('', lowerAZ, Ch CHR '')'', Plus Space]))) ''g''),
     \<comment> \<open>\<^verbatim>\<open>(?=\((I{1,3}|...|XX[IVX]*)\)\s+)\<close>\<close>
     (js ''paren-roman-upper'', RegExp (Seq boundary (Ahead (Seqs [Ch CHR ''('', Grp 1 romanUpper, Ch CHR '')'', Plus Space]))) ''g''),
     \<comment> \<open>\<^verbatim>\<open>(?=\((i{1,3}|...|xx[ivx]*)\)\s+)\<close>\<close>
     (js ''paren-roman-lower'', RegExp (Seq boundary (Ahead (Seqs [Ch CHR ''('', Grp 1 romanLower, Ch CHR '')'', Plus Space]))) ''g''),
     \<comment> \<open>\<^verbatim>\<open>(?=Section\s+\d+\.)\<close>, flags \<^verbatim>\<open>gi\<close>\<close>
     (js ''section'', RegExp (Seq boundaryWide (Ahead (Seqs [Str ''Section'', Plus Space, Plus Digit, Ch CHR ''.'']))) ''gi''),
     \<comment> \<open>\<^verbatim>\<open>(?=Section\s+\d+\.(?!\d))\<close>, flags \<^verbatim>\<open>gi\<close>\<close>
     (js ''section-decimal'', RegExp (Seq boundaryWide (Ahead (Seqs [Str ''Section'', Plus Space, Plus Digit, Ch CHR ''.'',
                                                               NotAhead Digit]))) ''gi''),
     \<comment> \<open>\<^verbatim>\<open>(?=(?:Article|ARTICLE)\s+(?:[IVX]+|\d+))\<close>\<close>
     (js ''article'', RegExp (Seq boundary (Ahead (Seqs [Alts [Str ''Article'', Str ''ARTICLE''], Plus Space,
         Alts [Plus setIVX, Plus Digit]]))) ''g''),
     \<comment> \<open>\<^verbatim>\<open>(?=\d+\.0\s+[A-Z])\<close>\<close>
     (js ''decimal-zero'', RegExp (Seq boundary (Ahead (Seqs [Plus Digit, Ch CHR ''.'', Ch CHR ''0'', Plus Space, upperAZ]))) ''g'')
   ] schemaType\<close>

record SchemaCandidate =
  regex :: regexp
  type :: jstring
  splitRegex :: regexp

definition patterns :: "SchemaCandidate list" where
  \<comment> \<open>The five candidates of \<^verbatim>\<open>detectNumberingSchema\<close>, in their order.\<close>
  \<open>patterns = [
     \<comment> \<open>\<^verbatim>\<open>/\n\s*(I{1,3}|...|XX[IVX]*)\.\s+[A-Z][A-Z\s]/g\<close> and
         \<^verbatim>\<open>/\n\s*(?=(I{1,3}|...|XX[IVX]*)\.\s+[A-Z])/g\<close>\<close>
     \<lparr>regex = RegExp (Seqs [NL, Star Space, Grp 1 romanUpper, Ch CHR ''.'', Plus Space, upperAZ,
                            Set False [Range CHR ''A'' CHR ''Z'', CSpace]]) ''g'',
      type = js ''roman'',
      splitRegex = RegExp (Seqs [NL, Star Space,
                            Ahead (Seqs [Grp 1 romanUpper, Ch CHR ''.'', Plus Space, upperAZ])]) ''g''\<rparr>,
     \<comment> \<open>\<^verbatim>\<open>/\n\s*Section\s+(\d+)\./gi\<close> and \<^verbatim>\<open>/\n\s*(?=Section\s+\d+\.)/gi\<close>\<close>
     \<lparr>regex = RegExp (Seqs [NL, Star Space, Str ''Section'', Plus Space, Grp 1 (Plus Digit), Ch CHR ''.'']) ''gi'',
      type = js ''section'',
      splitRegex = RegExp (Seqs [NL, Star Space,
                            Ahead (Seqs [Str ''Section'', Plus Space, Plus Digit, Ch CHR ''.''])]) ''gi''\<rparr>,
     \<comment> \<open>\<^verbatim>\<open>/\n\s*Article\s+(\d+)/gi\<close> and \<^verbatim>\<open>/\n\s*(?=Article\s+\d+)/gi\<close>\<close>
     \<lparr>regex = RegExp (Seqs [NL, Star Space, Str ''Article'', Plus Space, Grp 1 (Plus Digit)]) ''gi'',
      type = js ''article'',
      splitRegex = RegExp (Seqs [NL, Star Space, Ahead (Seqs [Str ''Article'', Plus Space, Plus Digit])]) ''gi''\<rparr>,
     \<comment> \<open>\<^verbatim>\<open>/\n\s*ARTICLE\s+([IVX]+)/g\<close> and \<^verbatim>\<open>/\n\s*(?=ARTICLE\s+[IVX]+)/g\<close>\<close>
     \<lparr>regex = RegExp (Seqs [NL, Star Space, Str ''ARTICLE'', Plus Space, Grp 1 (Plus setIVX)]) ''g'',
      type = js ''article-roman'',
      splitRegex = RegExp (Seqs [NL, Star Space, Ahead (Seqs [Str ''ARTICLE'', Plus Space, Plus setIVX])]) ''g''\<rparr>,
     \<comment> \<open>\<^verbatim>\<open>/\n\s*(\d+)\.\s+[A-Z][A-Z\s]{3,}/g\<close> and \<^verbatim>\<open>/\n\s*(?=\d+\.\s+[A-Z][A-Z])/g\<close>\<close>
     \<lparr>regex = RegExp (Seqs [NL, Star Space, Grp 1 (Plus Digit), Ch CHR ''.'', Plus Space, upperAZ,
                            Rep 3 None True (Set False [Range CHR ''A'' CHR ''Z'', CSpace])]) ''g'',
      type = js ''numeric'',
      splitRegex = RegExp (Seqs [NL, Star Space,
                            Ahead (Seqs [Plus Digit, Ch CHR ''.'', Plus Space, upperAZ, upperAZ])]) ''g''\<rparr>]\<close>

definition matchCount :: "jstring \<Rightarrow> SchemaCandidate \<Rightarrow> nat" where
  \<comment> \<open>\<^verbatim>\<open>matches ? matches.length : 0\<close> for \<^verbatim>\<open>matches = text.match(p.regex)\<close>\<close>
  "matchCount text p = (case stringMatchAll text (regex p) of None \<Rightarrow> 0 | Some matches \<Rightarrow> length matches)"

fun detectLoop :: "jstring \<Rightarrow> SchemaCandidate list \<Rightarrow> SchemaCandidate \<times> nat \<Rightarrow> SchemaCandidate \<times> nat" where
  \<comment> \<open>The loop over \<^verbatim>\<open>patterns\<close>; the state is \<^verbatim>\<open>(bestPattern, maxCount)\<close>.\<close>
  "detectLoop text [] (bestPattern, maxCount) = (bestPattern, maxCount)"
| "detectLoop text (p # ps) (bestPattern, maxCount) =
     (if matchCount text p > maxCount then detectLoop text ps (p, matchCount text p)
      else detectLoop text ps (bestPattern, maxCount))"

definition detectNumberingSchema :: "jstring \<Rightarrow> regexp \<times> jstring" where
  \<comment> \<open>Returns \<^verbatim>\<open>{ pattern: bestPattern.splitRegex, type: bestPattern.type }\<close>.\<close>
  "detectNumberingSchema text =
     (case detectLoop text patterns (hd patterns, 0) of (bestPattern, maxCount) \<Rightarrow>
        (if maxCount < 2 then (splitRegex (hd patterns), type (hd patterns))
         else (splitRegex bestPattern, type bestPattern)))"

section \<open>Numbers\<close>

text \<open>
  A JavaScript number is an IEEE 754 double. The numbers of the engine are similarity scores:
  quotients of two set sizes, their products with decimal constants and the sum of two such
  products, all between 0 and 2. A finite double is embedded as the rational number it denotes,
  and each operation gives the double nearest to the exact result, ties going to the even
  significand (the function \<open>double\<close>, with the subnormal numbers below \<open>2 powi (-1022)\<close>). A decimal
  literal of the source is the double nearest to it. The sizes of sets and the lengths of
  strings are integers below \<open>2 ^ 53\<close> in every engine, doubles themselves.
\<close>

function ilen :: "int \<Rightarrow> nat" where
  \<comment> \<open>The number of binary digits of a positive integer.\<close>
  "ilen n = (if n \<le> 0 then 0 else Suc (ilen (n div 2)))"
  by pat_completeness auto
termination
  by (relation "measure nat") auto

declare ilen.simps [simp del]

definition ilog2 :: "rat \<Rightarrow> int" where
  \<comment> \<open>The binary exponent \<open>e\<close> of a positive rational \<open>x\<close>: \<open>2 powi e \<le> x < 2 powi (e + 1)\<close>; \<open>powi\<close> is
      the power with an integer exponent.\<close>
  "ilog2 x = (case quotient_of x of (p, q) \<Rightarrow>
     (let k = int (ilen p) - int (ilen q) in if 2 powi k \<le> x then k else k - 1))"

definition rne :: "rat \<Rightarrow> int" where
  \<comment> \<open>The nearest integer, the even one of two at the same distance.\<close>
  "rne x = (let f = \<lfloor>x\<rfloor> in
     if x - of_int f < 1 / 2 then f
     else if 1 / 2 < x - of_int f then f + 1
     else if even f then f else f + 1)"

definition double :: "rat \<Rightarrow> rat" where
  \<comment> \<open>The double nearest to \<open>x\<close>: a multiple of \<open>2 powi (e - 52)\<close> for the exponent \<open>e\<close> of \<open>x\<close>, or
      of \<open>2 powi (-1074)\<close> when \<open>x\<close> is below the normal range.\<close>
  "double x = (if x = 0 then 0
     else (let e = max (ilog2 \<bar>x\<bar>) (- 1022); u = 2 powi (e - 52) in of_int (rne (x / u)) * u))"

definition dmul :: "rat \<Rightarrow> rat \<Rightarrow> rat" where
  "dmul x y = double (x * y)"

definition dadd :: "rat \<Rightarrow> rat \<Rightarrow> rat" where
  "dadd x y = double (x + y)"

definition ddiv :: "rat \<Rightarrow> rat \<Rightarrow> rat" where
  \<comment> \<open>The source divides by the size of a non-empty set only.\<close>
  "ddiv x y = double (x / y)"

section \<open>Repository matcher\<close>

text \<open>
  A repository clause is the \<^verbatim>\<open>Clause\<close> of \<^verbatim>\<open>types/clause.ts\<close>; the engine reads its \<^verbatim>\<open>id\<close>,
  \<^verbatim>\<open>clause_type\<close> and \<^verbatim>\<open>clause_text\<close> only. A threshold is a finite number.
\<close>

record Clause =
  id' :: jstring
  clause_type :: jstring
  clause_text :: jstring

record RepositoryMatch =
  clauseType :: jstring
  score :: rat
  matchedClauseId :: jstring

definition nonWordRegex :: regexp where
  \<comment> \<open>\<^verbatim>\<open>/[^\w\s]/g\<close>\<close>
  "nonWordRegex = RegExp (Set True [CWord, CSpace]) ''g''"

definition normalizeWords :: "jstring \<Rightarrow> jstring list" where
  \<comment> \<open>The local function \<^verbatim>\<open>normalize\<close> of \<^verbatim>\<open>calculateTextSimilarity\<close>; it splits on \<^verbatim>\<open>/\s+/\<close>.\<close>
  "normalizeWords text =
     filter (\<lambda>w. length w > 2)
       (stringSplit (stringReplace (toLowerCase text) nonWordRegex [RText (js '' '')]) (RegExp (Plus Space) []))"

definition calculateTextSimilarity :: "jstring \<Rightarrow> jstring \<Rightarrow> rat" where
  \<comment> \<open>A \<^verbatim>\<open>Set\<close> of strings is a duplicate-free list; only its size is read.\<close>
  "calculateTextSimilarity text1 text2 =
     (let words1 = remdups (normalizeWords text1);
          words2 = remdups (normalizeWords text2)
      in if length words1 = 0 \<or> length words2 = 0 then 0
         else (let intersection = remdups (filter (\<lambda>w. w \<in> set words2) words1);
                   union = remdups (words1 @ words2)
               in ddiv (of_nat (length intersection)) (of_nat (length union))))"

definition getNGrams :: "nat \<Rightarrow> jstring \<Rightarrow> jstring list" where
  \<comment> \<open>The local function \<^verbatim>\<open>getNGrams\<close> of \<^verbatim>\<open>calculateNGramSimilarity\<close>; the loop runs for
      \<^verbatim>\<open>i = 0, ..., words.length - n\<close>, not at all when \<^verbatim>\<open>words.length < n\<close>.\<close>
  "getNGrams n text =
     (let normalized = trim (stringReplace (stringReplace (toLowerCase text) nonWordRegex [RText (js '' '')])
                               (RegExp (Plus Space) ''g'') [RText (js '' '')]);
          words = filter (\<lambda>w. length w > 0) (splitChar 0x20 normalized)
      in remdups (map (\<lambda>i. joinWith (js '' '') (take n (drop i words))) [0 ..< Suc (length words) - n]))"

definition calculateNGramSimilarity :: "jstring \<Rightarrow> jstring \<Rightarrow> nat \<Rightarrow> rat" where
  "calculateNGramSimilarity text1 text2 n =
     (let ngrams1 = getNGrams n text1;
          ngrams2 = getNGrams n text2
      in if length ngrams1 = 0 \<or> length ngrams2 = 0 then 0
         else (let intersection = remdups (filter (\<lambda>ng. ng \<in> set ngrams2) ngrams1);
                   union = remdups (ngrams1 @ ngrams2)
               in ddiv (of_nat (length intersection)) (of_nat (length union))))"

definition combinedScore :: "jstring \<Rightarrow> Clause \<Rightarrow> rat" where
  \<comment> \<open>\<^verbatim>\<open>(wordSimilarity * 0.4) + (ngramSimilarity * 0.6)\<close>, with trigrams\<close>
  "combinedScore clauseText repoClause =
     dadd (dmul (calculateTextSimilarity clauseText (Clause.clause_text repoClause)) (double (4 / 10)))
          (dmul (calculateNGramSimilarity clauseText (Clause.clause_text repoClause) 3) (double (6 / 10)))"

fun scanRepository :: "jstring \<Rightarrow> rat \<Rightarrow> Clause list \<Rightarrow> RepositoryMatch option \<Rightarrow> RepositoryMatch option" where
  \<comment> \<open>The loop of \<^verbatim>\<open>matchClauseFromRepository\<close>; the state is \<^verbatim>\<open>bestMatch\<close>.\<close>
  "scanRepository clauseText threshold [] bestMatch = bestMatch"
| "scanRepository clauseText threshold (repoClause # rest) bestMatch =
     (if Clause.clause_text repoClause = [] \<or> length (Clause.clause_text repoClause) < 50
      then scanRepository clauseText threshold rest bestMatch
      else if Clause.clause_type repoClause = js ''General Clause'' \<or> Clause.clause_type repoClause = js ''Other''
      then scanRepository clauseText threshold rest bestMatch
      else if combinedScore clauseText repoClause \<ge> threshold
              \<and> (case bestMatch of None \<Rightarrow> True | Some b \<Rightarrow> combinedScore clauseText repoClause > score b)
      then scanRepository clauseText threshold rest
             (Some \<lparr>clauseType = Clause.clause_type repoClause,
                    score = combinedScore clauseText repoClause,
                    matchedClauseId = id' repoClause\<rparr>)
      else scanRepository clauseText threshold rest bestMatch)"

definition matchClauseFromRepository :: "jstring \<Rightarrow> Clause list \<Rightarrow> rat \<Rightarrow> RepositoryMatch option" where
  \<comment> \<open>The default of \<^verbatim>\<open>threshold\<close> is 0.15.\<close>
  "matchClauseFromRepository clauseText repositoryClauses threshold =
     (if repositoryClauses = [] then None
      else scanRepository clauseText threshold repositoryClauses None)"

fun mapSet :: "'k \<Rightarrow> 'v \<Rightarrow> ('k \<times> 'v) list \<Rightarrow> ('k \<times> 'v) list" where
  \<comment> \<open>\<^verbatim>\<open>Map.prototype.set\<close>: a \<^verbatim>\<open>Map\<close> iterates in the order its keys were first set.\<close>
  "mapSet k v [] = [(k, v)]"
| "mapSet k v ((k', v') # m) = (if k' = k then (k, v) # m else (k', v') # mapSet k v m)"

fun groupLoop :: "Clause list \<Rightarrow> (jstring \<times> Clause list) list \<Rightarrow> (jstring \<times> Clause list) list" where
  "groupLoop [] grouped = grouped"
| "groupLoop (clause # rest) grouped =
     (let existing = (case map_of grouped (Clause.clause_type clause) of None \<Rightarrow> [] | Some e \<Rightarrow> e)
      in groupLoop rest (mapSet (Clause.clause_type clause) (existing @ [clause]) grouped))"

definition groupClausesByType :: "Clause list \<Rightarrow> (jstring \<times> Clause list) list" where
  "groupClausesByType clauses = groupLoop clauses []"

definition typeScore :: "jstring \<Rightarrow> Clause \<Rightarrow> rat" where
  \<comment> \<open>\<^verbatim>\<open>(wordSim * 0.35) + (ngramSim * 0.65)\<close>, with bigrams\<close>
  "typeScore clauseText repoClause =
     dadd (dmul (calculateTextSimilarity clauseText (Clause.clause_text repoClause)) (double (35 / 100)))
          (dmul (calculateNGramSimilarity clauseText (Clause.clause_text repoClause) 2) (double (65 / 100)))"

fun maxScoreLoop :: "jstring \<Rightarrow> Clause list \<Rightarrow> rat \<times> jstring \<Rightarrow> rat \<times> jstring" where
  \<comment> \<open>The inner loop of \<^verbatim>\<open>findBestClauseTypeMatch\<close>; the state is \<^verbatim>\<open>(maxScore, bestClauseId)\<close>.\<close>
  "maxScoreLoop clauseText [] (maxScore, bestClauseId) = (maxScore, bestClauseId)"
| "maxScoreLoop clauseText (repoClause # rest) (maxScore, bestClauseId) =
     (if Clause.clause_text repoClause = [] \<or> length (Clause.clause_text repoClause) < 30
      then maxScoreLoop clauseText rest (maxScore, bestClauseId)
      else if typeScore clauseText repoClause > maxScore
      then maxScoreLoop clauseText rest (typeScore clauseText repoClause, id' repoClause)
      else maxScoreLoop clauseText rest (maxScore, bestClauseId))"

fun typesLoop :: "jstring \<Rightarrow> rat \<Rightarrow> (jstring \<times> Clause list) list \<Rightarrow> RepositoryMatch option \<Rightarrow> RepositoryMatch option" where
  \<comment> \<open>The outer loop of \<^verbatim>\<open>findBestClauseTypeMatch\<close> over the entries \<^verbatim>\<open>[clauseType, clauses]\<close> of the map;
      the state is \<^verbatim>\<open>bestMatch\<close>.\<close>
  "typesLoop clauseText threshold [] bestMatch = bestMatch"
| "typesLoop clauseText threshold ((ty, clauses) # rest) bestMatch =
     (if ty = js ''General Clause'' \<or> ty = js ''Other''
      then typesLoop clauseText threshold rest bestMatch
      else (case maxScoreLoop clauseText clauses (0, []) of (maxScore, bestClauseId) \<Rightarrow>
        if maxScore \<ge> threshold \<and> (case bestMatch of None \<Rightarrow> True | Some b \<Rightarrow> maxScore > score b)
        then typesLoop clauseText threshold rest
               (Some \<lparr>clauseType = ty, score = maxScore, matchedClauseId = bestClauseId\<rparr>)
        else typesLoop clauseText threshold rest bestMatch))"

definition findBestClauseTypeMatch :: "jstring \<Rightarrow> Clause list \<Rightarrow> rat \<Rightarrow> RepositoryMatch option" where
  \<comment> \<open>The default of \<^verbatim>\<open>threshold\<close> is 0.12.\<close>
  "findBestClauseTypeMatch clauseText repositoryClauses threshold =
     typesLoop clauseText threshold (groupClausesByType repositoryClauses) None"

section \<open>Type classifier\<close>

definition commonClauseTypes :: "jstring list" where
  "commonClauseTypes = [
     js ''Document Name'', js ''Parties'', js ''Agreement Date'', js ''Effective Date'', js ''Expiration Date'',
     js ''Renewal Term'', js ''Notice Period'', js ''Governing Law'', js ''Most Favored Nation'',
     js ''Competitive Restriction'', js ''Non-Compete'', js ''Exclusivity'', js ''No-Solicit'', js ''Non-Disparagement'',
     js ''Termination'', js ''Rofr/Rofo/Rofn'', js ''Change of Control'', js ''Anti-Assignment'',
     js ''Revenue/Profit Sharing'', js ''Price Restrictions'', js ''Minimum Commitment'', js ''Volume Restriction'',
     js ''Ip Ownership'', js ''License Grant'', js ''Source Code Escrow'', js ''Post-Termination Services'',
     js ''Audit Rights'', js ''Liability Cap'', js ''Liquidated Damages'', js ''Warranty Duration'', js ''Insurance'',
     js ''Covenant Not To Sue'', js ''Third Party Beneficiary'', js ''Indemnification'', js ''Confidentiality'',
     js ''Force Majeure'', js ''Payment Terms'', js ''Dispute Resolution'', js ''Severability'', js ''Amendment'',
     js ''Modification'', js ''Waiver'', js ''Entire Agreement'', js ''Counterparts'']"

definition isMiscellaneousOrGeneralSection :: "jstring \<Rightarrow> bool" where
  "isMiscellaneousOrGeneralSection clauseNo =
     (let lower = toLowerCase clauseNo
      in strIncludes lower (js ''miscellaneous'') \<or> strIncludes lower (js ''general''))"

definition detectMiscellaneousSubclauseType :: "jstring \<Rightarrow> jstring option" where
  "detectMiscellaneousSubclauseType text =
     (let lowerText = toLowerCase text in
      if strIncludes lowerText (js ''governing law'')
         \<or> (strIncludes lowerText (js ''state'') \<and> strIncludes lowerText (js ''laws''))
         \<or> (strIncludes lowerText (js ''construed'') \<and> strIncludes lowerText (js ''laws''))
         \<or> strIncludes lowerText (js ''governed by the laws'')
      then Some (js ''Governing Law'')
      else if strIncludes lowerText (js ''counterpart'') then Some (js ''Counterparts'')
      else if strIncludes lowerText (js ''amended'') \<or> strIncludes lowerText (js ''modified'')
              \<or> strIncludes lowerText (js ''amendment'') \<or> strIncludes lowerText (js ''modification'')
      then Some (js ''Modification'')
      else if strIncludes lowerText (js ''entire agreement'')
              \<or> strIncludes lowerText (js ''entire understanding'')
              \<or> (strIncludes lowerText (js ''constitutes the entire'') \<and> strIncludes lowerText (js ''agreement''))
      then Some (js ''Entire Agreement'')
      else if strIncludes lowerText (js ''severability'') \<or> strIncludes lowerText (js ''severable'')
              \<or> (strIncludes lowerText (js ''invalid'') \<and> strIncludes lowerText (js ''provision''))
              \<or> (strIncludes lowerText (js ''unenforceable'') \<and> strIncludes lowerText (js ''provision''))
      then Some (js ''Severability'')
      else if strIncludes lowerText (js ''waiver'') \<or> strIncludes lowerText (js ''waive'') then Some (js ''Waiver'')
      else if strIncludes lowerText (js ''notice'')
              \<and> (strIncludes lowerText (js ''shall be'') \<or> strIncludes lowerText (js ''given''))
      then Some (js ''Notice Period'')
      else if strIncludes lowerText (js ''assignment'') \<or> strIncludes lowerText (js ''assign'')
      then Some (js ''Anti-Assignment'')
      else if strIncludes lowerText (js ''successors'') \<and> strIncludes lowerText (js ''assigns'')
      then Some (js ''Anti-Assignment'')
      else None)"

definition mappings :: "(jstring \<times> jstring) list" where
  \<comment> \<open>The table of \<^verbatim>\<open>cleanTitle\<close>; \<^verbatim>\<open>Object.entries\<close> lists it in this order.\<close>
  "mappings = [
     (js ''indemnity'', js ''Indemnification''),
     (js ''indemnification'', js ''Indemnification''),
     (js ''limitation of liability'', js ''Liability Cap''),
     (js ''liability'', js ''Liability Cap''),
     (js ''confidentiality'', js ''Confidentiality''),
     (js ''proprietary'', js ''Confidentiality''),
     (js ''termination'', js ''Termination''),
     (js ''term'', js ''Termination''),
     (js ''force majeure'', js ''Force Majeure''),
     (js ''intellectual property'', js ''Ip Ownership''),
     (js ''ip'', js ''Ip Ownership''),
     (js ''ownership'', js ''Ip Ownership''),
     (js ''warranty'', js ''Warranty Duration''),
     (js ''guarantee'', js ''Warranty Duration''),
     (js ''payment'', js ''Payment Terms''),
     (js ''fee'', js ''Payment Terms''),
     (js ''non-compete'', js ''Non-Compete''),
     (js ''noncompete'', js ''Non-Compete''),
     (js ''governing law'', js ''Governing Law''),
     (js ''law'', js ''Governing Law''),
     (js ''assignment'', js ''Anti-Assignment''),
     (js ''transfer'', js ''Anti-Assignment''),
     (js ''notice'', js ''Notice Period''),
     (js ''most favored nation'', js ''Most Favored Nation''),
     (js ''exclusivity'', js ''Exclusivity''),
     (js ''solicit'', js ''No-Solicit''),
     (js ''disparage'', js ''Non-Disparagement''),
     (js ''rofr'', js ''Rofr/Rofo/Rofn''),
     (js ''rofo'', js ''Rofr/Rofo/Rofn''),
     (js ''refusal'', js ''Rofr/Rofo/Rofn''),
     (js ''change of control'', js ''Change of Control''),
     (js ''revenue'', js ''Revenue/Profit Sharing''),
     (js ''profit'', js ''Revenue/Profit Sharing''),
     (js ''sharing'', js ''Revenue/Profit Sharing''),
     (js ''commitment'', js ''Minimum Commitment''),
     (js ''restriction'', js ''Volume Restriction''),
     (js ''license'', js ''License Grant''),
     (js ''escrow'', js ''Source Code Escrow''),
     (js ''audit'', js ''Audit Rights''),
     (js ''liquidated'', js ''Liquidated Damages''),
     (js ''insurance'', js ''Insurance''),
     (js ''effective'', js ''Effective Date''),
     (js ''expiration'', js ''Expiration Date''),
     (js ''renewal'', js ''Renewal Term'')]"

fun firstMapping :: "jstring \<Rightarrow> (jstring \<times> jstring) list \<Rightarrow> jstring option" where
  \<comment> \<open>\<^verbatim>\<open>for (const [key, value] of ...) if (lower.includes(key)) return value\<close>\<close>
  "firstMapping lower [] = None"
| "firstMapping lower ((key, v) # rest) = (if strIncludes lower key then Some v else firstMapping lower rest)"

definition cleanTitle :: "jstring \<Rightarrow> jstring" where
  "cleanTitle title =
     (let trimmed = trim title in
      if length trimmed > 50 then substring 0 47 trimmed @ js ''...''
      else (case firstMapping (toLowerCase trimmed) mappings of
              Some v \<Rightarrow> v
            | None \<Rightarrow> trimmed))"

definition headerPatterns :: "regexp list" where
  \<comment> \<open>The four patterns of \<^verbatim>\<open>parseHeader\<close>.\<close>
  \<open>headerPatterns = [
     \<comment> \<open>\<^verbatim>\<open>/^([0-9]+|[A-Z]|[IVX]+)\.\s+([A-Z][A-Za-z\s,\/\(\)]{3,100})(?:\n|\.|\s{2,}|$|(?=\s+[0-9]+\.[0-9]+))/\<close>\<close>
     RegExp (Seqs [Bol,
        Grp 1 (Alts [Plus (Set False [Range CHR ''0'' CHR ''9'']), upperAZ, Plus setIVX]),
        Ch CHR ''.'', Plus Space,
        Grp 2 (Seq upperAZ (Rep 3 (Some 100) True
           (Set False [Range CHR ''A'' CHR ''Z'', Range CHR ''a'' CHR ''z'', CSpace, One CHR '','',
                       One CHR ''/'', One CHR ''('', One CHR '')'']))),
        Alts [NL, Ch CHR ''.'', Rep 2 None True Space, Eol,
              Ahead (Seqs [Plus Space, Plus (Set False [Range CHR ''0'' CHR ''9'']), Ch CHR ''.'',
                           Plus (Set False [Range CHR ''0'' CHR ''9''])])]]) [],
     \<comment> \<open>\<^verbatim>\<open>/^([0-9]+|[A-Z]|[IVX]+)\.\s+([^\n.]+)(?:\n|\.|$)/\<close>\<close>
     RegExp (Seqs [Bol,
        Grp 1 (Alts [Plus (Set False [Range CHR ''0'' CHR ''9'']), upperAZ, Plus setIVX]),
        Ch CHR ''.'', Plus Space,
        Grp 2 (Plus (Set True [CChar 0x0A, One CHR ''.''])),
        Alts [NL, Ch CHR ''.'', Eol]]) [],
     \<comment> \<open>\<^verbatim>\<open>/^(?:Section|Article|Clause)\s+[0-9A-ZIVX]+\.?\s*([^\n.]+)?(?:\n|\.|$)/i\<close>\<close>
     RegExp (Seqs [Bol, Alts [Str ''Section'', Str ''Article'', Str ''Clause''], Plus Space,
        Plus (Set False [Range CHR ''0'' CHR ''9'', Range CHR ''A'' CHR ''Z'', One CHR ''I'',
                         One CHR ''V'', One CHR ''X'']),
        Opt (Ch CHR ''.''), Star Space,
        Opt (Grp 1 (Plus (Set True [CChar 0x0A, One CHR ''.'']))),
        Alts [NL, Ch CHR ''.'', Eol]]) ''i'',
     \<comment> \<open>\<^verbatim>\<open>/^([A-Z\s]{4,})(?:\n|$)/\<close>\<close>
     RegExp (Seqs [Bol, Grp 1 (Rep 4 None True (Set False [Range CHR ''A'' CHR ''Z'', CSpace])),
        Alts [NL, Eol]]) []]\<close>

definition groupStr :: "nat \<Rightarrow> jstring \<times> captures \<Rightarrow> jstring" where
  \<comment> \<open>Element n of a match whose group n is on every path of the pattern.\<close>
  "groupStr n m = (case group n m of Some g \<Rightarrow> g | None \<Rightarrow> [])"

definition parseHeader :: "jstring \<Rightarrow> jstring option \<times> jstring" where
  \<comment> \<open>Returns \<^verbatim>\<open>{ title, text }\<close>; \<open>None\<close> is \<^verbatim>\<open>null\<close>.\<close>
  "parseHeader block =
     (case stringMatch block (headerPatterns ! 0) of
        Some numberedHeaderMatch \<Rightarrow> (Some (cleanTitle (groupStr 2 numberedHeaderMatch)), block)
      | None \<Rightarrow>
     (case (case stringMatch block (headerPatterns ! 1) of
              Some simpleNumberedMatch \<Rightarrow>
                (let potTitle = trim (groupStr 2 simpleNumberedMatch) in
                 if length potTitle > 2 \<and> length potTitle < 100 then Some (cleanTitle potTitle) else None)
            | None \<Rightarrow> None) of
        Some t \<Rightarrow> (Some t, block)
      | None \<Rightarrow>
     (case (case stringMatch block (headerPatterns ! 2) of
              Some sectionMatch \<Rightarrow>
                (case group 1 sectionMatch of
                   Some g \<Rightarrow>
                     (let potTitle = trim g in
                      if g \<noteq> [] \<and> length potTitle > 2 \<and> length potTitle < 100
                      then Some (cleanTitle potTitle) else None)
                 | None \<Rightarrow> None)
            | None \<Rightarrow> None) of
        Some t \<Rightarrow> (Some t, block)
      | None \<Rightarrow>
     (case stringMatch block (headerPatterns ! 3) of
        Some allCapsMatch \<Rightarrow> (Some (cleanTitle (groupStr 1 allCapsMatch)), block)
      | None \<Rightarrow> (None, block)))))"

definition earlyKeywords :: "(jstring list \<times> jstring) list" where
  \<comment> \<open>The chain of tests on \<^verbatim>\<open>first200Chars\<close> in \<^verbatim>\<open>detectClauseType\<close>, in its order: the type is
      returned when one of the keywords occurs.\<close>
  "earlyKeywords = [
     ([js ''confidential'', js ''proprietary''], js ''Confidentiality''),
     ([js ''liability'', js ''cap'', js ''uncapped''], js ''Liability Cap''),
     ([js ''indemnif''], js ''Indemnification''),
     ([js ''terminat''], js ''Termination''),
     ([js ''payment'', js ''fee'', js ''royalty''], js ''Payment Terms''),
     ([js ''intellectual'', js ''ipr'', js ''ownership''], js ''Ip Ownership''),
     ([js ''law'', js ''jurisdiction''], js ''Governing Law''),
     ([js ''arbitration'', js ''dispute''], js ''Dispute Resolution''),
     ([js ''notice''], js ''Notice Period''),
     ([js ''force majeure''], js ''Force Majeure''),
     ([js ''severability'', js ''invalid''], js ''Severability''),
     ([js ''assignment'', js ''transfer''], js ''Anti-Assignment''),
     ([js ''warranty'', js ''guarantee''], js ''Warranty Duration''),
     ([js ''favored nation''], js ''Most Favored Nation''),
     ([js ''non-compete'', js ''noncompete''], js ''Non-Compete''),
     ([js ''exclusiv''], js ''Exclusivity''),
     ([js ''non-disparage'', js ''nondisparage''], js ''Non-Disparagement''),
     ([js ''solicit''], js ''No-Solicit''),
     ([js ''change of control''], js ''Change of Control''),
     ([js ''first refusal'', js ''rofr''], js ''Rofr/Rofo/Rofn''),
     ([js ''revenue share'', js ''profit share''], js ''Revenue/Profit Sharing''),
     ([js ''price restriction''], js ''Price Restrictions''),
     ([js ''minimum commitment'', js ''commits to purchase''], js ''Minimum Commitment''),
     ([js ''volume restriction''], js ''Volume Restriction''),
     ([js ''license'', js ''grant''], js ''License Grant''),
     ([js ''escrow''], js ''Source Code Escrow''),
     ([js ''audit''], js ''Audit Rights''),
     ([js ''liquidated damages''], js ''Liquidated Damages''),
     ([js ''insurance''], js ''Insurance''),
     ([js ''covenant not to sue''], js ''Covenant Not To Sue''),
     ([js ''third party beneficiary''], js ''Third Party Beneficiary''),
     ([js ''effective date''], js ''Effective Date''),
     ([js ''expiration date''], js ''Expiration Date''),
     ([js ''renewal term''], js ''Renewal Term'')]"

fun firstKeyword :: "jstring \<Rightarrow> (jstring list \<times> jstring) list \<Rightarrow> jstring option" where
  "firstKeyword s [] = None"
| "firstKeyword s ((keys, t) # rest) =
     (if (\<exists>k \<in> set keys. strIncludes s k) then Some t else firstKeyword s rest)"

fun firstCommonType :: "jstring \<Rightarrow> jstring list \<Rightarrow> jstring option" where
  \<comment> \<open>\<^verbatim>\<open>for (const type of commonClauseTypes) if (lowercaseText.includes(type.toLowerCase())) return type\<close>\<close>
  "firstCommonType lowercaseText [] = None"
| "firstCommonType lowercaseText (t # rest) =
     (if strIncludes lowercaseText (toLowerCase t) then Some t else firstCommonType lowercaseText rest)"

definition detectClauseType :: "jstring \<Rightarrow> jstring option" where
  "detectClauseType text =
     (let lowercaseText = toLowerCase text;
          first200Chars = trim (substring 0 200 lowercaseText);
          veryEarly = substring 0 50 lowercaseText
      in if strIncludes veryEarly (js ''between'') \<and> strIncludes veryEarly (js ''party'') then Some (js ''Parties'')
         else if strIncludes veryEarly (js ''agreement'')
                 \<and> (strIncludes veryEarly (js ''made'') \<or> strIncludes veryEarly (js ''dated''))
         then Some (js ''Document Name'')
         else (case firstKeyword first200Chars earlyKeywords of
                 Some t \<Rightarrow> Some t
               | None \<Rightarrow> if length text < 1500 then firstCommonType lowercaseText commonClauseTypes
                          else None))"

section \<open>Clause-number parser\<close>

definition clauseNumberPatterns :: "regexp list" where
  \<comment> \<open>The four patterns of \<^verbatim>\<open>parseClauseNumber\<close>.\<close>
  \<open>clauseNumberPatterns = [
     \<comment> \<open>\<^verbatim>\<open>/^((?:\d+|[IVX]+|[A-Z])\.\s*[^\n.]+?)(?:\.\s*|\n\s*)(.+)$/s\<close>\<close>
     RegExp (Seqs [Bol,
        Grp 1 (Seqs [Alts [Plus Digit, Plus setIVX, upperAZ], Ch CHR ''.'', Star Space,
                     PlusLazy (Set True [CChar 0x0A, One CHR ''.''])]),
        Alts [Seq (Ch CHR ''.'') (Star Space), Seq NL (Star Space)],
        Grp 2 (Plus Dot), Eol]) ''s'',
     \<comment> \<open>\<^verbatim>\<open>/^((?:Section|Article|ARTICLE|Clause)\s+(?:\d+|[IVX]+)\.?\s*[^\n.]*?)(?:\.\s*|\n\s*)(.+)$/si\<close>\<close>
     RegExp (Seqs [Bol,
        Grp 1 (Seqs [Alts [Str ''Section'', Str ''Article'', Str ''ARTICLE'', Str ''Clause''], Plus Space,
                     Alts [Plus Digit, Plus setIVX], Opt (Ch CHR ''.''), Star Space,
                     StarLazy (Set True [CChar 0x0A, One CHR ''.''])]),
        Alts [Seq (Ch CHR ''.'') (Star Space), Seq NL (Star Space)],
        Grp 2 (Plus Dot), Eol]) ''si'',
     \<comment> \<open>\<^verbatim>\<open>/^((?:\d+|[IVX]+|[A-Z])\.)\s*(.+)$/s\<close>\<close>
     RegExp (Seqs [Bol,
        Grp 1 (Seq (Alts [Plus Digit, Plus setIVX, upperAZ]) (Ch CHR ''.'')),
        Star Space, Grp 2 (Plus Dot), Eol]) ''s'',
     \<comment> \<open>\<^verbatim>\<open>/^([A-Z][A-Z\s]{3,50})(?:\.\s*|\n\s*)(.+)$/s\<close>\<close>
     RegExp (Seqs [Bol,
        Grp 1 (Seq upperAZ (Rep 3 (Some 50) True (Set False [Range CHR ''A'' CHR ''Z'', CSpace]))),
        Alts [Seq (Ch CHR ''.'') (Star Space), Seq NL (Star Space)],
        Grp 2 (Plus Dot), Eol]) ''s'']\<close>

definition parseClauseNumber :: "jstring \<Rightarrow> jstring \<times> jstring" where
  \<comment> \<open>Returns \<^verbatim>\<open>{ clause_no, body_text }\<close>.\<close>
  "parseClauseNumber block =
     (let trimmed = trim block in
      case stringMatch trimmed (clauseNumberPatterns ! 0) of
        Some numberedWithTitleMatch \<Rightarrow>
          (trim (groupStr 1 numberedWithTitleMatch), trim (groupStr 2 numberedWithTitleMatch))
      | None \<Rightarrow>
     (case stringMatch trimmed (clauseNumberPatterns ! 1) of
        Some sectionMatch \<Rightarrow> (trim (groupStr 1 sectionMatch), trim (groupStr 2 sectionMatch))
      | None \<Rightarrow>
     (case stringMatch trimmed (clauseNumberPatterns ! 2) of
        Some simpleNumberMatch \<Rightarrow>
          (case indexOfChar 0x0A (groupStr 2 simpleNumberMatch) of
             Some firstLineEnd \<Rightarrow>
               (let firstLine = trim (substring 0 firstLineEnd (groupStr 2 simpleNumberMatch));
                    rest = trim (drop firstLineEnd (groupStr 2 simpleNumberMatch))
                in if firstLineEnd > 0 \<and> firstLineEnd < 100 \<and> length firstLine < 80 \<and> length rest > 0
                   then (groupStr 1 simpleNumberMatch @ js '' '' @ firstLine, rest)
                   else (groupStr 1 simpleNumberMatch, trim (groupStr 2 simpleNumberMatch)))
           | None \<Rightarrow> (groupStr 1 simpleNumberMatch, trim (groupStr 2 simpleNumberMatch)))
      | None \<Rightarrow>
     (case stringMatch trimmed (clauseNumberPatterns ! 3) of
        Some allCapsMatch \<Rightarrow> (trim (groupStr 1 allCapsMatch), trim (groupStr 2 allCapsMatch))
      | None \<Rightarrow> ([], trimmed)))))"

section \<open>Extracted clauses and the miscellaneous-section expander\<close>

record ExtractedClause =
  clause_type :: jstring
  clause_text :: jstring
  clause_no :: jstring
  preferred_position :: jstring
  party_role :: jstring
  complexity :: int
  balance :: int
  matched_from_repository :: bool
  similarity_score :: rat

definition truthy :: "jstring option \<Rightarrow> bool" where
  \<comment> \<open>A value of type \<^verbatim>\<open>string | null\<close> in a condition: \<^verbatim>\<open>null\<close> and the empty string are false.\<close>
  "truthy v = (case v of None \<Rightarrow> False | Some s \<Rightarrow> s \<noteq> [])"

definition subclauseSplitPatterns :: "regexp list" where
  \<comment> \<open>\<^verbatim>\<open>sectionDecimalRegex\<close>, \<^verbatim>\<open>parenRegex\<close> and the blank-line pattern of
      \<^verbatim>\<open>extractSubclausesFromMiscellaneous\<close>.\<close>
  \<open>subclauseSplitPatterns = [
     \<comment> \<open>\<^verbatim>\<open>/(?=(?:Section\s+)?\d+\.\d+[\s.:])/gi\<close>\<close>
     RegExp (Ahead (Seqs [Opt (Seq (Str ''Section'') (Plus Space)), Plus Digit, Ch CHR ''.'', Plus Digit,
                          Set False [CSpace, One CHR ''.'', One CHR '':'']])) ''gi'',
     \<comment> \<open>\<^verbatim>\<open>/(?=\([a-z0-9]\)\s+)/gi\<close>\<close>
     RegExp (Ahead (Seqs [Ch CHR ''('', Set False [Range CHR ''a'' CHR ''z'', Range CHR ''0'' CHR ''9''],
                          Ch CHR '')'', Plus Space])) ''gi'',
     \<comment> \<open>\<^verbatim>\<open>/\n\s*\n/\<close>\<close>
     RegExp (Seqs [NL, Star Space, NL]) []]\<close>

definition subRefRegex :: regexp where
  \<comment> \<open>\<^verbatim>\<open>/^(?:Section\s+)?(\d+\.\d+)[\s.:]+(.+)$/si\<close>\<close>
  \<open>subRefRegex = RegExp (Seqs [Bol, Opt (Seq (Str ''Section'') (Plus Space)),
      Grp 1 (Seqs [Plus Digit, Ch CHR ''.'', Plus Digit]),
      Plus (Set False [CSpace, One CHR ''.'', One CHR '':'']),
      Grp 2 (Plus Dot), Eol]) ''si''\<close>

definition subBlocksOf :: "jstring \<Rightarrow> jstring list" where
  \<comment> \<open>The three attempts at splitting the block, each kept when it gives at least two pieces.\<close>
  "subBlocksOf blockText =
     (let subBlocks = filter (\<lambda>b. length (trim b) > 20) (stringSplit blockText (subclauseSplitPatterns ! 0));
          subBlocks = (if length subBlocks < 2
                       then filter (\<lambda>b. length (trim b) > 20) (stringSplit blockText (subclauseSplitPatterns ! 1))
                       else subBlocks)
      in if length subBlocks < 2
         then filter (\<lambda>b. length (trim b) > 30) (stringSplit blockText (subclauseSplitPatterns ! 2))
         else subBlocks)"

definition subclauseTypeOf :: "jstring \<Rightarrow> Clause list \<Rightarrow> jstring option" where
  \<comment> \<open>\<^verbatim>\<open>subclauseType\<close> after the keyword detector and the repository fallback
      (\<^verbatim>\<open>findBestClauseTypeMatch\<close> with its default threshold 0.12).\<close>
  "subclauseTypeOf trimmedSub repositoryClauses =
     (let subclauseType = detectMiscellaneousSubclauseType trimmedSub in
      if \<not> truthy subclauseType \<and> length repositoryClauses > 0
      then (case findBestClauseTypeMatch trimmedSub repositoryClauses (double (12 / 100)) of
              Some repoMatch \<Rightarrow> if score repoMatch > double (15 / 100) then Some (clauseType repoMatch) else subclauseType
            | None \<Rightarrow> subclauseType)
      else subclauseType)"

definition subclauseOf :: "jstring \<Rightarrow> jstring \<Rightarrow> jstring \<Rightarrow> ExtractedClause" where
  \<comment> \<open>The object pushed for a sub-clause.\<close>
  "subclauseOf subclauseType parentClauseNo subclauseText =
     \<lparr>clause_type = subclauseType,
      clause_text = normalizeText subclauseText,
      clause_no = parentClauseNo,
      preferred_position = js ''Standard legal position for '' @ subclauseType,
      party_role = js ''Neutral'',
      complexity = 5,
      balance = 0,
      matched_from_repository = False,
      similarity_score = 0\<rparr>"

definition subclauseTextOf :: "jstring \<Rightarrow> jstring" where
  \<comment> \<open>\<^verbatim>\<open>subclauseText\<close>: \<^verbatim>\<open>subRefMatch[0]\<close> when the sub-clause reference matches, \<^verbatim>\<open>trimmedSub\<close>
      otherwise.\<close>
  "subclauseTextOf trimmedSub =
     (case stringMatch trimmedSub subRefRegex of
        Some subRefMatch \<Rightarrow> groupStr 0 subRefMatch
      | None \<Rightarrow> trimmedSub)"

fun subclauseLoop :: "jstring \<Rightarrow> Clause list \<Rightarrow> jstring list \<Rightarrow> ExtractedClause list \<Rightarrow> ExtractedClause list" where
  \<comment> \<open>The loop over \<^verbatim>\<open>subBlocks\<close>; the state is the array \<^verbatim>\<open>subclauses\<close>.\<close>
  "subclauseLoop parentClauseNo repositoryClauses [] subclauses = subclauses"
| "subclauseLoop parentClauseNo repositoryClauses (subBlock # rest) subclauses =
     (let trimmedSub = trim subBlock in
      if length trimmedSub < 30 then subclauseLoop parentClauseNo repositoryClauses rest subclauses
      else (case subclauseTypeOf trimmedSub repositoryClauses of
          Some subclauseType \<Rightarrow>
            if subclauseType \<noteq> [] then
              subclauseLoop parentClauseNo repositoryClauses rest
                (subclauses @ [subclauseOf subclauseType parentClauseNo (subclauseTextOf trimmedSub)])
            else subclauseLoop parentClauseNo repositoryClauses rest subclauses
        | None \<Rightarrow> subclauseLoop parentClauseNo repositoryClauses rest subclauses))"

definition extractSubclausesFromMiscellaneous :: "jstring \<Rightarrow> jstring \<Rightarrow> Clause list \<Rightarrow> ExtractedClause list" where
  "extractSubclausesFromMiscellaneous parentClauseNo blockText repositoryClauses =
     subclauseLoop parentClauseNo repositoryClauses (subBlocksOf blockText) []"

section \<open>Block segmenter and the extraction\<close>

definition chooseSchema :: "jstring \<Rightarrow> NumberingSchema option \<Rightarrow> regexp option \<times> regexp option \<times> jstring" where
  \<comment> \<open>\<^verbatim>\<open>(splitRegex, mainHeaderRegex, schemaType)\<close> after the choice between the schema of the
      caller and the detected one; \<open>None\<close> is \<^verbatim>\<open>null\<close>.\<close>
  "chooseSchema cleanedText userSchema =
     (case userSchema of
        Some us \<Rightarrow>
          if mainClause us \<noteq> (js ''none'')
          then (getSchemaSplitRegex (mainClause us), getSchemaRegex (mainClause us), mainClause us)
          else (case detectNumberingSchema cleanedText of (pat, ty) \<Rightarrow> (Some pat, None, ty))
      | None \<Rightarrow> (case detectNumberingSchema cleanedText of (pat, ty) \<Rightarrow> (Some pat, None, ty)))"

definition primarySplit :: "jstring \<Rightarrow> regexp option \<Rightarrow> regexp option \<Rightarrow> jstring list" where
  \<comment> \<open>\<^verbatim>\<open>initialBlocks\<close> after the split by the main clause pattern and the skip of the preamble.\<close>
  "primarySplit cleanedText splitRe mainHeaderRegex =
     (case splitRe of
        None \<Rightarrow> []
      | Some sr \<Rightarrow>
          (let initialBlocks = stringSplit cleanedText sr in
           case mainHeaderRegex of
             None \<Rightarrow> initialBlocks
           | Some hr \<Rightarrow>
               if length initialBlocks > 1
               then (let firstBlock = trim (hd initialBlocks);
                         firstLine = hd (splitChar 0x0A firstBlock)
                     in if \<not> rxTest hr firstLine then tl initialBlocks else initialBlocks)
               else initialBlocks))"

definition alternativePatterns :: "(regexp \<times> jstring) list" where
  \<comment> \<open>\<^verbatim>\<open>romanCapsRegex\<close>, \<^verbatim>\<open>sectionRegex\<close> and \<^verbatim>\<open>numericCapsRegex\<close>, each with the schema type
      that is set when its split is taken.\<close>
  \<open>alternativePatterns = [
     \<comment> \<open>\<^verbatim>\<open>/\n\s*(?=[IVX]+\.\s+[A-Z][A-Z])/g\<close>\<close>
     (RegExp (Seqs [NL, Star Space, Ahead (Seqs [Plus setIVX, Ch CHR ''.'', Plus Space, upperAZ, upperAZ])]) ''g'',
      js ''roman-upper''),
     \<comment> \<open>\<^verbatim>\<open>/\n\s*(?=(?:Section|Article|ARTICLE)\s+\d+\.)/gi\<close>\<close>
     (RegExp (Seqs [NL, Star Space, Ahead (Seqs [Alts [Str ''Section'', Str ''Article'', Str ''ARTICLE''],
                                                 Plus Space, Plus Digit, Ch CHR ''.''])]) ''gi'',
      js ''section''),
     \<comment> \<open>\<^verbatim>\<open>/\n\s*(?=\d+\.\s+[A-Z][A-Z])/g\<close>\<close>
     (RegExp (Seqs [NL, Star Space, Ahead (Seqs [Plus Digit, Ch CHR ''.'', Plus Space, upperAZ, upperAZ])]) ''g'',
      js ''numeric'')]\<close>

fun firstAlternative :: "jstring \<Rightarrow> (regexp \<times> jstring) list \<Rightarrow> (jstring list \<times> jstring) option" where
  \<comment> \<open>The first alternative pattern whose split has at least three pieces.\<close>
  "firstAlternative cleanedText [] = None"
| "firstAlternative cleanedText ((re, ty) # rest) =
     (let altBlocks = stringSplit cleanedText re in
      if length altBlocks \<ge> 3 then Some (altBlocks, ty) else firstAlternative cleanedText rest)"

definition withAlternatives :: "jstring \<Rightarrow> jstring list \<times> jstring \<Rightarrow> jstring list \<times> jstring" where
  \<comment> \<open>\<^verbatim>\<open>(initialBlocks, schemaType)\<close> after the retry with the alternative patterns.\<close>
  "withAlternatives cleanedText bs =
     (if length (fst bs) < 3
      then (case firstAlternative cleanedText alternativePatterns of
              Some alt \<Rightarrow> alt
            | None \<Rightarrow> bs)
      else bs)"

definition defaultHeaderRegex :: regexp where
  \<comment> \<open>\<^verbatim>\<open>/^(I{1,3}|...|XX[IVX]*)\.\s+[A-Z]/\<close>\<close>
  "defaultHeaderRegex = RegExp (Seqs [Bol, Grp 1 romanUpper, Ch CHR ''.'', Plus Space, upperAZ]) []"

definition resolveHeaderRegex :: "regexp option \<Rightarrow> jstring \<Rightarrow> regexp" where
  \<comment> \<open>\<^verbatim>\<open>if (!mainHeaderRegex) mainHeaderRegex = getSchemaRegex(schemaType) || /.../\<close>\<close>
  "resolveHeaderRegex mainHeaderRegex schemaType =
     (case mainHeaderRegex of
        Some hr \<Rightarrow> hr
      | None \<Rightarrow> (case getSchemaRegex schemaType of Some hr \<Rightarrow> hr | None \<Rightarrow> defaultHeaderRegex))"

fun mergeBlocks :: "regexp \<Rightarrow> jstring list \<Rightarrow> jstring list \<Rightarrow> jstring list" where
  \<comment> \<open>The loop over \<^verbatim>\<open>initialBlocks\<close>; the state is the array \<^verbatim>\<open>blocks\<close>.\<close>
  "mergeBlocks mainHeaderRegex [] blocks = blocks"
| "mergeBlocks mainHeaderRegex (block # rest) blocks =
     (let trimmed = trim block in
      if length trimmed < 10 then mergeBlocks mainHeaderRegex rest blocks
      else if rxTest mainHeaderRegex (hd (splitChar 0x0A trimmed)) \<or> blocks = []
      then mergeBlocks mainHeaderRegex rest (blocks @ [trimmed])
      else mergeBlocks mainHeaderRegex rest (butlast blocks @ [last blocks @ [0x0A, 0x0A] @ trimmed]))"

definition segment :: "jstring \<Rightarrow> NumberingSchema option \<Rightarrow> jstring list" where
  \<comment> \<open>The array \<^verbatim>\<open>blocks\<close> of \<^verbatim>\<open>extractClausesRuleBased\<close>.\<close>
  "segment cleanedText userSchema =
     (case chooseSchema cleanedText userSchema of (splitRe, mainHeaderRegex, schemaType) \<Rightarrow>
        (case withAlternatives cleanedText (primarySplit cleanedText splitRe mainHeaderRegex, schemaType) of
           (initialBlocks, schemaType') \<Rightarrow>
             mergeBlocks (resolveHeaderRegex mainHeaderRegex schemaType') initialBlocks []))"

definition pageNoiseRegex :: regexp where
  \<comment> \<open>\<^verbatim>\<open>/Agreement between.*Page\s+\d+\s+of\s+\d+.*\(01\/2021 v[^\)]*\)/gi\<close>\<close>
  \<open>pageNoiseRegex = RegExp (Seqs [Str ''Agreement between'', Star Dot, Str ''Page'', Plus Space, Plus Digit,
      Plus Space, Str ''of'', Plus Space, Plus Digit, Star Dot, Str ''(01/2021 v'',
      Star (Set True [One CHR '')'']), Ch CHR '')'']) ''gi''\<close>

definition legalWordsRegex :: regexp where
  \<comment> \<open>\<^verbatim>\<open>/shall|hereby|party|agreement/i\<close>\<close>
  "legalWordsRegex = RegExp (Alts [Str ''shall'', Str ''hereby'', Str ''party'', Str ''agreement'']) ''i''"

definition classify :: "jstring \<Rightarrow> Clause list \<Rightarrow> jstring option \<times> bool \<times> rat" where
  \<comment> \<open>\<^verbatim>\<open>(detectedType, matchedFromRepo, similarityScore)\<close> of a block before the test
      \<^verbatim>\<open>if (detectedType)\<close>: the title or the keyword detector, the repository match, the
      general label.\<close>
  "classify cleanedBlock repositoryClauses =
     (let title = fst (parseHeader cleanedBlock);
          detectedType = (if truthy title then title else detectClauseType cleanedBlock);
          repoMatch = (if length repositoryClauses > 0
                       then findBestClauseTypeMatch cleanedBlock repositoryClauses (double (12 / 100)) else None);
          decided = (case repoMatch of
                       Some rm \<Rightarrow>
                         if \<not> truthy detectedType \<or> detectedType = Some (js ''General Clause'') \<or> score rm > double (2 / 10)
                         then (Some (clauseType rm), True, score rm)
                         else (detectedType, False, 0)
                     | None \<Rightarrow> (detectedType, False, 0))
      in if \<not> truthy (fst decided) \<and> (length cleanedBlock > 100 \<or> rxTest legalWordsRegex cleanedBlock)
         then (Some (js ''General Clause''), snd decided)
         else decided)"

definition regularClause :: "jstring \<Rightarrow> jstring \<Rightarrow> jstring \<Rightarrow> bool \<Rightarrow> rat \<Rightarrow> ExtractedClause" where
  \<comment> \<open>The object pushed for a regular clause and for a miscellaneous section without sub-clauses.\<close>
  "regularClause detectedType clauseNo body_text matchedFromRepo similarityScore =
     \<lparr>clause_type = detectedType,
      clause_text = normalizeText body_text,
      clause_no = clauseNo,
      preferred_position = js ''Standard legal position for '' @ detectedType,
      party_role = js ''Neutral'',
      complexity = 5,
      balance = 0,
      matched_from_repository = matchedFromRepo,
      similarity_score = similarityScore\<rparr>"

definition emit :: "jstring \<Rightarrow> Clause list \<Rightarrow> ExtractedClause list option" where
  \<comment> \<open>What one block adds to \<^verbatim>\<open>clauses\<close>: \<open>None\<close> when the block is left out (and not added to
      \<^verbatim>\<open>seenTexts\<close>), the clauses pushed otherwise.\<close>
  "emit cleanedBlock repositoryClauses =
     (case parseClauseNumber cleanedBlock of (clauseNo, body_text) \<Rightarrow>
     (case classify cleanedBlock repositoryClauses of (detectedType, matchedFromRepo, similarityScore) \<Rightarrow>
     (case detectedType of
        None \<Rightarrow> None
      | Some ty \<Rightarrow>
          if ty = [] then None
          else if isMiscellaneousOrGeneralSection clauseNo
          then (let extractedSubclauses = extractSubclausesFromMiscellaneous clauseNo cleanedBlock repositoryClauses in
                if length extractedSubclauses > 0 then Some extractedSubclauses
                else Some [regularClause ty clauseNo body_text matchedFromRepo similarityScore])
          else Some [regularClause ty clauseNo body_text matchedFromRepo similarityScore])))"

fun blocksLoop :: "Clause list \<Rightarrow> jstring list \<Rightarrow> ExtractedClause list \<times> jstring list \<Rightarrow> ExtractedClause list \<times> jstring list" where
  \<comment> \<open>The loop over \<^verbatim>\<open>blocks\<close>; the state is \<^verbatim>\<open>(clauses, seenTexts)\<close>, the set in the order of
      insertion.\<close>
  "blocksLoop repositoryClauses [] (clauses, seenTexts) = (clauses, seenTexts)"
| "blocksLoop repositoryClauses (block # rest) (clauses, seenTexts) =
     (let trimmedBlock = trim block in
      if length trimmedBlock < 30 then blocksLoop repositoryClauses rest (clauses, seenTexts)
      else if trimmedBlock \<in> set seenTexts then blocksLoop repositoryClauses rest (clauses, seenTexts)
      else (let cleanedBlock = trim (stringReplace trimmedBlock pageNoiseRegex []) in
            if length cleanedBlock < 20 then blocksLoop repositoryClauses rest (clauses, seenTexts)
            else (case emit cleanedBlock repositoryClauses of
                    None \<Rightarrow> blocksLoop repositoryClauses rest (clauses, seenTexts)
                  | Some new \<Rightarrow> blocksLoop repositoryClauses rest (clauses @ new, seenTexts @ [trimmedBlock]))))"

definition extractClausesRuleBased :: "jstring \<Rightarrow> Clause list \<Rightarrow> NumberingSchema option \<Rightarrow> ExtractedClause list" where
  \<comment> \<open>\<^verbatim>\<open>repositoryClauses\<close> defaults to the empty array; an absent \<^verbatim>\<open>userSchema\<close> is \<open>None\<close>.\<close>
  "extractClausesRuleBased documentText repositoryClauses userSchema =
     fst (blocksLoop repositoryClauses (segment (removePageNumbers documentText) userSchema) ([], []))"


section \<open>Rounding to a double\<close>

lemma p2_pos: "0 < (2::rat) powi k"
  by (simp add: zero_less_power_int)

lemma p2_add: "(2::rat) powi (a + b) = 2 powi a * 2 powi b"
  by (simp add: power_int_add)

lemma p2_nat: "(2::rat) powi int n = 2 ^ n"
  by (rule power_int_of_nat)

lemma p2_mono: "a \<le> b \<Longrightarrow> (2::rat) powi a \<le> 2 powi b"
proof -
  assume "a \<le> b"
  then have "b = a + int (nat (b - a))" by simp
  then have "(2::rat) powi b = 2 powi a * 2 ^ nat (b - a)"
    by (metis p2_add p2_nat)
  moreover have "(2::rat) powi a * 1 \<le> 2 powi a * 2 ^ nat (b - a)"
    using p2_pos [of a] by (intro mult_left_mono) simp_all
  ultimately show ?thesis
    by simp
qed

lemma p2_less_imp: "(2::rat) powi a < 2 powi b \<Longrightarrow> a < b"
  using p2_mono [of b a] by (cases "a < b") auto

lemma ilen_pos: "0 < n \<Longrightarrow> 0 < ilen n"
  by (subst ilen.simps) simp

lemma ilen_bounds: "0 < n \<Longrightarrow> 2 ^ (ilen n - 1) \<le> n \<and> n < 2 ^ ilen n"
proof (induction n rule: ilen.induct)
  case (1 n)
  show ?case
  proof (cases "n div 2 = 0")
    case True
    with 1(2) have "n = 1" by presburger
    then show ?thesis
      by (simp add: ilen.simps [of 1] ilen.simps [of 0])
  next
    case False
    with 1(2) have pos: "0 < n div 2" by presburger
    from 1(1) 1(2) pos have ih: "2 ^ (ilen (n div 2) - 1) \<le> n div 2" "n div 2 < 2 ^ ilen (n div 2)"
      by simp_all
    from ilen_pos [OF pos] have l: "ilen (n div 2) = Suc (ilen (n div 2) - 1)"
      by simp
    from 1(2) have n: "ilen n = Suc (ilen (n div 2))"
      by (subst ilen.simps) simp
    have "(2::int) ^ ilen (n div 2) = 2 * 2 ^ (ilen (n div 2) - 1)"
      by (subst l) simp
    with ih(1) have lo: "2 ^ ilen (n div 2) \<le> n" by presburger
    from ih(2) have "n < 2 * 2 ^ ilen (n div 2)" by presburger
    with lo show ?thesis by (simp add: n)
  qed
qed

text \<open>The exponent of a quotient of positive integers.\<close>

definition expq :: "int \<Rightarrow> int \<Rightarrow> int" where
  "expq p q = (let k = int (ilen p) - int (ilen q) in
     if (if 0 \<le> k then 2 ^ nat k * q \<le> p else q \<le> p * 2 ^ nat (- k)) then k else k - 1)"

lemma p2_le_quotient:
  assumes "0 < q"
  shows "(2::rat) powi k \<le> of_int p / of_int q
     \<longleftrightarrow> (if 0 \<le> k then 2 ^ nat k * q \<le> p else q \<le> p * 2 ^ nat (- k))"
proof (cases "0 \<le> k")
  case True
  then have "(2::rat) powi k = of_int (2 ^ nat k)"
    by (simp add: power_int_def)
  then have "(2::rat) powi k \<le> of_int p / of_int q \<longleftrightarrow> (of_int (2 ^ nat k * q) :: rat) \<le> of_int p"
    using assms by (simp add: pos_le_divide_eq)
  also have "\<dots> \<longleftrightarrow> 2 ^ nat k * q \<le> p"
    by (rule of_int_le_iff)
  finally show ?thesis using True by simp
next
  case False
  define n where "n = nat (- k)"
  from False have "k = - int n" by (simp add: n_def)
  then have eq: "(2::rat) powi k = 1 / 2 ^ n"
    by (simp add: power_int_minus_divide p2_nat)
  have "1 / 2 ^ n \<le> (of_int p :: rat) / of_int q \<longleftrightarrow> (of_int q :: rat) \<le> of_int p * 2 ^ n"
    using assms by (simp add: field_simps)
  then have "(2::rat) powi k \<le> of_int p / of_int q \<longleftrightarrow> (of_int q :: rat) \<le> of_int p * 2 ^ n"
    by (simp only: eq)
  also have "\<dots> \<longleftrightarrow> (of_int q :: rat) \<le> of_int (p * 2 ^ nat (- k))"
    by (simp add: n_def)
  also have "\<dots> \<longleftrightarrow> q \<le> p * 2 ^ nat (- k)"
    by (rule of_int_le_iff)
  finally show ?thesis using False by simp
qed

lemma expq_bounds:
  assumes "0 < p" and "0 < q"
  shows "(2::rat) powi (expq p q) \<le> of_int p / of_int q"
    and "of_int p / of_int q < (2::rat) powi (expq p q + 1)"
proof -
  define a where "a = ilen p"
  define b where "b = ilen q"
  define x :: rat where "x = of_int p / of_int q"
  from ilen_bounds [OF assms(1)] have p: "2 ^ (a - 1) \<le> p" "p < 2 ^ a"
    by (simp_all add: a_def)
  from ilen_bounds [OF assms(2)] have q: "2 ^ (b - 1) \<le> q" "q < 2 ^ b"
    by (simp_all add: b_def)
  have a: "0 < a" and b: "0 < b"
    using assms by (simp_all add: a_def b_def ilen_pos)
  have qpos: "(0::rat) < of_int q" using assms by simp
  have up: "x < 2 powi (int a - int b + 1)"
  proof -
    have "(2::int) ^ b = 2 * 2 ^ (b - 1)"
      using b by (cases b) simp_all
    with q(1) have "2 ^ b \<le> 2 * q" by simp
    then have "(of_int (2 ^ b) :: rat) \<le> of_int (2 * q)"
      by (simp only: of_int_le_iff)
    then have qb: "(2::rat) ^ b \<le> 2 * of_int q" by simp
    from p(2) have "(of_int p :: rat) < of_int (2 ^ a)"
      by (simp only: of_int_less_iff)
    then have pa: "(of_int p :: rat) < 2 ^ a" by simp
    have "x * 2 ^ b \<le> x * (2 * of_int q)"
      using qb assms by (intro mult_left_mono) (simp_all add: x_def)
    also have "\<dots> = 2 * of_int p"
      using qpos by (simp add: x_def)
    also have "\<dots> < 2 * 2 ^ a"
      using pa by simp
    finally have "x < 2 * 2 ^ a / 2 ^ b"
      by (simp add: pos_less_divide_eq)
    also have "\<dots> = 2 powi (int a - int b + 1)"
      by (simp add: power_int_add power_int_diff p2_nat)
    finally show ?thesis .
  qed
  have lo: "2 powi (int a - int b - 1) \<le> x"
  proof -
    have "(2::int) ^ a = 2 * 2 ^ (a - 1)"
      using a by (cases a) simp_all
    with p(1) have "2 ^ a \<le> 2 * p" by simp
    then have "(of_int (2 ^ a) :: rat) \<le> of_int (2 * p)"
      by (simp only: of_int_le_iff)
    then have pa: "(2::rat) ^ a \<le> 2 * of_int p" by simp
    from q(2) have "(of_int q :: rat) < of_int (2 ^ b)"
      by (simp only: of_int_less_iff)
    then have qb: "(of_int q :: rat) \<le> 2 ^ b" by simp
    have "2 powi (int a - int b - 1) = (2::rat) ^ a / (2 * 2 ^ b)"
      by (simp add: power_int_diff p2_nat)
    also have "\<dots> \<le> 2 * of_int p / (2 * 2 ^ b)"
      using pa by (intro divide_right_mono) simp_all
    also have "\<dots> \<le> 2 * of_int p / (2 * of_int q)"
      using qb qpos assms by (intro divide_left_mono) simp_all
    also have "\<dots> = x"
      by (simp add: x_def)
    finally show ?thesis .
  qed
  define k where "k = int a - int b"
  have e: "expq p q = (if 2 powi k \<le> x then k else k - 1)"
    unfolding expq_def Let_def x_def k_def a_def b_def
    using p2_le_quotient [OF assms(2), of "int (ilen p) - int (ilen q)" p] by simp
  show "(2::rat) powi (expq p q) \<le> of_int p / of_int q"
    using lo unfolding e x_def [symmetric] k_def by auto
  show "of_int p / of_int q < (2::rat) powi (expq p q + 1)"
    using up unfolding e x_def [symmetric] k_def by auto
qed

lemma exponent_unique:
  assumes "(2::rat) powi e \<le> x" "x < 2 powi (e + 1)" "2 powi e' \<le> y" "y < 2 powi (e' + 1)" "x \<le> y"
  shows "e \<le> e'"
proof -
  from assms have "(2::rat) powi e < 2 powi (e' + 1)" by linarith
  then have "e < e' + 1" by (rule p2_less_imp)
  then show ?thesis by simp
qed

lemma ilog2_quotient:
  assumes "quotient_of x = (p, q)"
  shows "ilog2 x = expq p q"
proof -
  have q: "0 < q" using assms by (rule quotient_of_denom_pos)
  have x: "x = of_int p / of_int q" using assms by (rule quotient_of_div)
  show ?thesis
    unfolding ilog2_def expq_def assms Let_def prod.case
    using p2_le_quotient [OF q, of "int (ilen p) - int (ilen q)" p] by (simp add: x)
qed

lemma ilog2_bounds:
  assumes "0 < x"
  shows "2 powi (ilog2 x) \<le> x" and "x < 2 powi (ilog2 x + 1)"
proof -
  obtain p q where pq: "quotient_of x = (p, q)" by (cases "quotient_of x")
  have q: "0 < q" using pq by (rule quotient_of_denom_pos)
  have x: "x = of_int p / of_int q" using pq by (rule quotient_of_div)
  with assms q have p: "0 < p" by (simp add: zero_less_divide_iff)
  from expq_bounds [OF p q] show "2 powi (ilog2 x) \<le> x" "x < 2 powi (ilog2 x + 1)"
    unfolding ilog2_quotient [OF pq] by (simp_all add: x [symmetric])
qed

lemma rne_int: "rne (of_int k) = k"
  by (simp add: rne_def)

lemma rne_range: "\<lfloor>x\<rfloor> \<le> rne x \<and> rne x \<le> \<lfloor>x\<rfloor> + 1"
  by (simp add: rne_def Let_def)

lemma rne_mono:
  assumes "x \<le> y"
  shows "rne x \<le> rne y"
proof (cases "\<lfloor>x\<rfloor> = \<lfloor>y\<rfloor>")
  case True
  with assms show ?thesis
    by (auto simp: rne_def Let_def)
next
  case False
  with assms have "\<lfloor>x\<rfloor> < \<lfloor>y\<rfloor>"
    using floor_mono [OF assms] by linarith
  with rne_range [of x] rne_range [of y] show ?thesis
    by linarith
qed

lemma double_pos_eq:
  "0 < x \<Longrightarrow> double x = of_int (rne (x / 2 powi (max (ilog2 x) (- 1022) - 52))) * 2 powi (max (ilog2 x) (- 1022) - 52)"
  by (simp add: double_def Let_def)

lemma double_zero: "double 0 = 0"
  by (simp add: double_def)

lemma double_nonneg: "0 \<le> x \<Longrightarrow> 0 \<le> double x"
proof (cases "x = 0")
  case True
  then show ?thesis by (simp add: double_zero)
next
  case False
  assume "0 \<le> x"
  with False have pos: "0 < x" by simp
  define u :: rat where "u = 2 powi (max (ilog2 x) (- 1022) - 52)"
  have u: "0 < u" by (simp add: u_def p2_pos)
  with pos have "0 \<le> x / u" by simp
  from rne_mono [OF this] have "0 \<le> rne (x / u)"
    using rne_int [of 0] by simp
  with u show ?thesis
    by (simp add: double_pos_eq [OF pos] u_def [symmetric])
qed

lemma double_mono_pos:
  assumes "0 < x" and "x \<le> y"
  shows "double x \<le> double y"
proof -
  from assms have ypos: "0 < y" by simp
  define ex where "ex = max (ilog2 x) (- 1022)"
  define ey where "ey = max (ilog2 y) (- 1022)"
  define ux :: rat where "ux = 2 powi (ex - 52)"
  define uy :: rat where "uy = 2 powi (ey - 52)"
  have ux: "0 < ux" and uy: "0 < uy"
    by (simp_all add: ux_def uy_def p2_pos)
  have dx: "double x = of_int (rne (x / ux)) * ux"
    by (simp add: double_pos_eq [OF assms(1)] ux_def ex_def)
  have dy: "double y = of_int (rne (y / uy)) * uy"
    by (simp add: double_pos_eq [OF ypos] uy_def ey_def)
  have "ilog2 x \<le> ilog2 y"
    using ilog2_bounds [OF assms(1)] ilog2_bounds [OF ypos] assms(2) by (rule exponent_unique)
  then have le: "ex \<le> ey"
    by (simp add: ex_def ey_def)
  show ?thesis
  proof (cases "ex = ey")
    case True
    then have same: "uy = ux" by (simp add: ux_def uy_def)
    from assms(2) ux have "x / ux \<le> y / ux"
      by (simp add: divide_right_mono)
    from rne_mono [OF this] have "(of_int (rne (x / ux)) :: rat) \<le> of_int (rne (y / ux))"
      by simp
    with ux show ?thesis
      unfolding dx dy same by (simp add: mult_right_mono)
  next
    case False
    with le have lt: "ex + 1 \<le> ey" by simp
    have upper: "double x \<le> 2 powi (ex + 1)"
    proof -
      have "x < 2 powi (ilog2 x + 1)"
        by (rule ilog2_bounds [OF assms(1)])
      also have "\<dots> \<le> 2 powi (ex + 1)"
        by (rule p2_mono) (simp add: ex_def)
      finally have "x / ux \<le> 2 powi (ex + 1) / ux"
        using ux by (simp add: divide_right_mono)
      also have "2 powi (ex + 1) / ux = 2 powi 53"
        unfolding ux_def by (simp add: power_int_diff [symmetric])
      also have "\<dots> = of_int (2 ^ 53)"
        using p2_nat [of 53] by simp
      finally have "rne (x / ux) \<le> 2 ^ 53"
        using rne_mono [of "x / ux" "of_int (2 ^ 53)"] by (simp only: rne_int)
      then have "(of_int (rne (x / ux)) :: rat) \<le> of_int (2 ^ 53)"
        by (simp only: of_int_le_iff)
      then have "double x \<le> of_int (2 ^ 53) * ux"
        unfolding dx using ux by (simp only: mult_right_mono less_imp_le)
      also have "of_int (2 ^ 53) * ux = 2 powi 53 * ux"
        using p2_nat [of 53] by simp
      also have "\<dots> = 2 powi (ex + 1)"
      proof -
        have e1: "53 + (ex - 52) = ex + 1" by simp
        show ?thesis unfolding ux_def p2_add [symmetric] e1 ..
      qed
      finally show ?thesis .
    qed
    have lower: "2 powi ey \<le> double y"
    proof -
      from lt have "- 1022 < ey" by (simp add: ex_def)
      then have ey: "ey = ilog2 y" by (simp add: ey_def max_def split: if_splits)
      have "2 powi ey \<le> y"
        unfolding ey by (rule ilog2_bounds [OF ypos])
      then have "2 powi ey / uy \<le> y / uy"
        using uy by (simp add: divide_right_mono)
      moreover have "2 powi ey / uy = 2 powi 52"
        unfolding uy_def by (simp add: power_int_diff [symmetric])
      moreover have "(2::rat) powi 52 = of_int (2 ^ 52)"
        using p2_nat [of 52] by simp
      ultimately have "2 ^ 52 \<le> rne (y / uy)"
        using rne_mono [of "of_int (2 ^ 52)" "y / uy"] by (simp only: rne_int)
      then have "(of_int (2 ^ 52) :: rat) \<le> of_int (rne (y / uy))"
        by (simp only: of_int_le_iff)
      then have "of_int (2 ^ 52) * uy \<le> double y"
        unfolding dy using uy by (simp only: mult_right_mono less_imp_le)
      moreover have "of_int (2 ^ 52) * uy = 2 powi 52 * uy"
        using p2_nat [of 52] by simp
      moreover have "2 powi 52 * uy = 2 powi ey"
      proof -
        have e1: "52 + (ey - 52) = ey" by simp
        show ?thesis unfolding uy_def p2_add [symmetric] e1 ..
      qed
      ultimately show ?thesis by simp
    qed
    from lt have "(2::rat) powi (ex + 1) \<le> 2 powi ey" by (rule p2_mono)
    with upper lower show ?thesis by linarith
  qed
qed

lemma double_mono: "0 \<le> x \<Longrightarrow> x \<le> y \<Longrightarrow> double x \<le> double y"
  using double_mono_pos [of x y] double_nonneg [of y] by (cases "x = 0") (auto simp: double_zero)

text \<open>The same rounding on the numerator and the denominator, for evaluation.\<close>

definition rdiv :: "int \<Rightarrow> int \<Rightarrow> int" where
  "rdiv n d = (let f = n div d; r = n mod d in
     if 2 * r < d then f else if d < 2 * r then f + 1 else if even f then f else f + 1)"

lemma rne_quotient:
  assumes "0 < d"
  shows "rne (of_int n / of_int d) = rdiv n d"
proof -
  have f: "\<lfloor>(of_int n :: rat) / of_int d\<rfloor> = n div d"
    by (rule floor_divide_of_int_eq)
  have "n = n div d * d + n mod d" by simp
  then have "(of_int n :: rat) = of_int (n div d) * of_int d + of_int (n mod d)"
    by (metis of_int_add of_int_mult)
  then have r: "(of_int n :: rat) / of_int d - of_int (n div d) = of_int (n mod d) / of_int d"
    using assms by (simp add: field_simps)
  have lt: "(of_int (n mod d) :: rat) / of_int d < 1 / 2 \<longleftrightarrow> 2 * (n mod d) < d"
  proof -
    have "(of_int (n mod d) :: rat) / of_int d < 1 / 2 \<longleftrightarrow> (of_int (2 * (n mod d)) :: rat) < of_int d"
      using assms by (simp add: field_simps)
    then show ?thesis by (simp only: of_int_less_iff)
  qed
  have gt: "1 / 2 < (of_int (n mod d) :: rat) / of_int d \<longleftrightarrow> d < 2 * (n mod d)"
  proof -
    have "1 / 2 < (of_int (n mod d) :: rat) / of_int d \<longleftrightarrow> (of_int d :: rat) < of_int (2 * (n mod d))"
      using assms by (simp add: field_simps)
    then show ?thesis by (simp only: of_int_less_iff)
  qed
  show ?thesis
    unfolding rne_def rdiv_def Let_def f r lt gt ..
qed

lemma double_code [code]:
  "double x = (case quotient_of x of (p, q) \<Rightarrow>
     if p = 0 then 0
     else (let e = max (expq \<bar>p\<bar> q) (- 1022); s = 52 - e in
           if 0 \<le> s then Fract (rdiv (p * 2 ^ nat s) q) (2 ^ nat s)
           else of_int (rdiv p (q * 2 ^ nat (- s)) * 2 ^ nat (- s))))"
proof -
  obtain p q where pq: "quotient_of x = (p, q)" by (cases "quotient_of x")
  have q: "0 < q" using pq by (rule quotient_of_denom_pos)
  have x: "x = of_int p / of_int q" using pq by (rule quotient_of_div)
  show ?thesis
  proof (cases "p = 0")
    case True
    then show ?thesis by (simp add: pq x double_zero)
  next
    case False
    with q have nz: "x \<noteq> 0" by (simp add: x)
    have "quotient_of \<bar>x\<bar> = (\<bar>p\<bar>, q)"
      by (simp add: rat_abs_code pq)
    then have e: "ilog2 \<bar>x\<bar> = expq \<bar>p\<bar> q"
      by (rule ilog2_quotient)
    define s where "s = 52 - max (expq \<bar>p\<bar> q) (- 1022)"
    define u :: rat where "u = 2 powi (- s)"
    have d: "double x = of_int (rne (x / u)) * u"
      using nz by (simp add: double_def Let_def e u_def s_def)
    have "double x = (if 0 \<le> s then Fract (rdiv (p * 2 ^ nat s) q) (2 ^ nat s)
           else of_int (rdiv p (q * 2 ^ nat (- s)) * 2 ^ nat (- s)))"
    proof (cases "0 \<le> s")
      case True
      define n where "n = nat s"
      from True have "- s = - int n" by (simp add: n_def)
      then have u: "u = 1 / 2 ^ n"
        by (simp add: u_def power_int_minus_divide p2_nat)
      have "x / u = of_int (p * 2 ^ n) / of_int q"
        by (simp add: u x)
      then have "rne (x / u) = rdiv (p * 2 ^ n) q"
        by (simp only: rne_quotient [OF q])
      then have "double x = of_int (rdiv (p * 2 ^ n) q) / of_int (2 ^ n)"
        by (simp add: d u)
      with True show ?thesis
        by (simp add: Fract_of_int_quotient n_def)
    next
      case False
      define n where "n = nat (- s)"
      from False have "- s = int n" by (simp add: n_def)
      then have u: "u = 2 ^ n"
        by (simp add: u_def p2_nat)
      have "x / u = of_int p / of_int (q * 2 ^ n)"
        by (simp add: u x)
      moreover have "0 < q * 2 ^ n" using q by simp
      ultimately have "rne (x / u) = rdiv p (q * 2 ^ n)"
        by (simp only: rne_quotient)
      then have "double x = of_int (rdiv p (q * 2 ^ n) * 2 ^ n)"
        by (simp add: d u)
      with False show ?thesis
        by (simp add: n_def)
    qed
    with False show ?thesis
      by (simp add: pq Let_def s_def)
  qed
qed

section \<open>Properties of the repository matcher\<close>

lemma jaccard_bounds:
  fixes a b :: "'a list"
  shows "0 \<le> (of_nat (length (remdups (filter P a))) :: rat) / of_nat (length (remdups (a @ b)))"
    and "(of_nat (length (remdups (filter P a))) :: rat) / of_nat (length (remdups (a @ b))) \<le> 1"
proof -
  have "card (set (filter P a)) \<le> card (set (a @ b))"
    by (rule card_mono) auto
  then have le: "length (remdups (filter P a)) \<le> length (remdups (a @ b))"
    by (simp only: length_remdups_card_conv)
  show "0 \<le> (of_nat (length (remdups (filter P a))) :: rat) / of_nat (length (remdups (a @ b)))"
    by simp
  show "(of_nat (length (remdups (filter P a))) :: rat) / of_nat (length (remdups (a @ b))) \<le> 1"
  proof (cases "length (remdups (a @ b)) = 0")
    case True
    then show ?thesis by simp
  next
    case False
    with le show ?thesis by (simp add: divide_le_eq_1)
  qed
qed

lemma double_one: "double 1 = 1"
  by code_simp

lemma unit_double: "0 \<le> x \<Longrightarrow> x \<le> 1 \<Longrightarrow> 0 \<le> double x \<and> double x \<le> 1"
  using double_nonneg [of x] double_mono [of x 1] by (simp add: double_one)

lemma calculateTextSimilarity_bounds:
  "0 \<le> calculateTextSimilarity t1 t2 \<and> calculateTextSimilarity t1 t2 \<le> 1"
  unfolding calculateTextSimilarity_def Let_def ddiv_def
  using jaccard_bounds [of "\<lambda>w. w \<in> set (remdups (normalizeWords t2))" "remdups (normalizeWords t1)"
      "remdups (normalizeWords t2)"]
  by (auto intro: unit_double [THEN conjunct1] unit_double [THEN conjunct2])

lemma calculateNGramSimilarity_bounds:
  "0 \<le> calculateNGramSimilarity t1 t2 n \<and> calculateNGramSimilarity t1 t2 n \<le> 1"
  unfolding calculateNGramSimilarity_def Let_def ddiv_def
  using jaccard_bounds [of "\<lambda>w. w \<in> set (getNGrams n t2)" "getNGrams n t1" "getNGrams n t2"]
  by (auto intro: unit_double [THEN conjunct1] unit_double [THEN conjunct2])

text \<open>The weights of each score are doubles whose sum, rounded, is 1.\<close>

lemma weights_combined:
  "0 \<le> double (4 / 10)" "double (double (4 / 10)) = double (4 / 10)"
  "0 \<le> double (6 / 10)" "double (double (6 / 10)) = double (6 / 10)"
  "double (double (4 / 10) + double (6 / 10)) = 1"
  by code_simp+

lemma weights_type:
  "0 \<le> double (35 / 100)" "double (double (35 / 100)) = double (35 / 100)"
  "0 \<le> double (65 / 100)" "double (double (65 / 100)) = double (65 / 100)"
  "double (double (35 / 100) + double (65 / 100)) = 1"
  by code_simp+

lemma weighted_bounds:
  assumes w: "0 \<le> w \<and> w \<le> 1" and n: "0 \<le> n \<and> n \<le> 1"
    and a: "0 \<le> a" "double a = a" and b: "0 \<le> b" "double b = b" and ab: "double (a + b) = 1"
  shows "0 \<le> dadd (dmul w a) (dmul n b) \<and> dadd (dmul w a) (dmul n b) \<le> 1"
proof -
  have wa: "0 \<le> w * a" "w * a \<le> a"
    using w a(1) by (simp_all add: mult_left_le_one_le)
  have nb: "0 \<le> n * b" "n * b \<le> b"
    using n b(1) by (simp_all add: mult_left_le_one_le)
  have 1: "0 \<le> dmul w a" "dmul w a \<le> a"
    using double_nonneg [OF wa(1)] double_mono [OF wa] by (simp_all add: dmul_def a(2))
  have 2: "0 \<le> dmul n b" "dmul n b \<le> b"
    using double_nonneg [OF nb(1)] double_mono [OF nb] by (simp_all add: dmul_def b(2))
  from 1 2 have s: "0 \<le> dmul w a + dmul n b" "dmul w a + dmul n b \<le> a + b"
    by simp_all
  from double_nonneg [OF s(1)] double_mono [OF s] show ?thesis
    by (simp add: dadd_def ab)
qed

lemma combinedScore_bounds: "0 \<le> combinedScore t c \<and> combinedScore t c \<le> 1"
  unfolding combinedScore_def
  by (rule weighted_bounds [OF calculateTextSimilarity_bounds calculateNGramSimilarity_bounds weights_combined])

lemma typeScore_bounds: "0 \<le> typeScore t c \<and> typeScore t c \<le> 1"
  unfolding typeScore_def
  by (rule weighted_bounds [OF calculateTextSimilarity_bounds calculateNGramSimilarity_bounds weights_type])

text \<open>A match that leaves a loop is the one that entered it or comes from an entry at or above
  the threshold.\<close>

lemma scanRepository_result:
  "scanRepository t th cs best = Some m \<Longrightarrow>
     best = Some m \<or> (\<exists>c \<in> set cs. score m = combinedScore t c \<and> th \<le> combinedScore t c)"
proof (induction cs arbitrary: best)
  case Nil
  then show ?case by simp
next
  case (Cons c cs)
  let ?new = "Some \<lparr>clauseType = Clause.clause_type c, score = combinedScore t c, matchedClauseId = id' c\<rparr>"
  from Cons.prems have "scanRepository t th cs best = Some m
      \<or> (th \<le> combinedScore t c \<and> scanRepository t th cs ?new = Some m)"
    by (simp split: if_splits)
  then show ?case
  proof
    assume "scanRepository t th cs best = Some m"
    from Cons.IH [OF this] show ?thesis by auto
  next
    assume a: "th \<le> combinedScore t c \<and> scanRepository t th cs ?new = Some m"
    then have "?new = Some m \<or> (\<exists>c \<in> set cs. score m = combinedScore t c \<and> th \<le> combinedScore t c)"
      using Cons.IH by blast
    with a show ?thesis by auto
  qed
qed

lemma maxScoreLoop_result:
  "fst (maxScoreLoop t cs (ms, i)) = ms \<or> (\<exists>c \<in> set cs. fst (maxScoreLoop t cs (ms, i)) = typeScore t c)"
proof (induction cs arbitrary: ms i)
  case Nil
  then show ?case by simp
next
  case (Cons c cs)
  show ?case
    using Cons.IH [of ms i] Cons.IH [of "typeScore t c" "id' c"] by auto
qed

lemma typesLoop_result:
  "typesLoop t th gs best = Some m \<Longrightarrow>
     best = Some m \<or> (\<exists>g \<in> set gs. score m = fst (maxScoreLoop t (snd g) (0, [])) \<and> th \<le> score m)"
proof (induction gs arbitrary: best)
  case Nil
  then show ?case by simp
next
  case (Cons g gs)
  obtain ty cs where g: "g = (ty, cs)" by (cases g)
  obtain ms i where ml: "maxScoreLoop t cs (0, []) = (ms, i)" by (cases "maxScoreLoop t cs (0, [])")
  let ?new = "Some \<lparr>clauseType = ty, score = ms, matchedClauseId = i\<rparr>"
  from Cons.prems have "typesLoop t th gs best = Some m \<or> (th \<le> ms \<and> typesLoop t th gs ?new = Some m)"
    by (simp add: g ml split: if_splits)
  then show ?case
  proof
    assume "typesLoop t th gs best = Some m"
    from Cons.IH [OF this] show ?thesis by auto
  next
    assume a: "th \<le> ms \<and> typesLoop t th gs ?new = Some m"
    then have "?new = Some m \<or> (\<exists>g \<in> set gs. score m = fst (maxScoreLoop t (snd g) (0, [])) \<and> th \<le> score m)"
      using Cons.IH by blast
    with a show ?thesis by (auto simp: g ml)
  qed
qed

text \<open>Every group of the map is a non-empty list of repository clauses.\<close>

lemma mapSet_groups:
  "(ty, cs) \<in> set (mapSet k v m) \<Longrightarrow> (ty, cs) = (k, v) \<or> (ty, cs) \<in> set m"
  by (induction m) (auto split: if_splits)

lemma groupLoop_groups:
  assumes "\<forall>(ty, cs) \<in> set g. cs \<noteq> [] \<and> set cs \<subseteq> A"
    and "set clauses \<subseteq> A"
  shows "\<forall>(ty, cs) \<in> set (groupLoop clauses g). cs \<noteq> [] \<and> set cs \<subseteq> A"
  using assms
proof (induction clauses arbitrary: g)
  case Nil
  then show ?case by simp
next
  case (Cons c clauses)
  define existing where "existing = (case map_of g (Clause.clause_type c) of None \<Rightarrow> [] | Some e \<Rightarrow> e)"
  have ex: "set existing \<subseteq> A"
  proof (cases "map_of g (Clause.clause_type c)")
    case None
    then show ?thesis by (simp add: existing_def)
  next
    case (Some e)
    from map_of_SomeD [OF Some] Cons.prems(1) have "set e \<subseteq> A" by auto
    with Some show ?thesis by (simp add: existing_def)
  qed
  have "\<forall>(ty, cs) \<in> set (mapSet (Clause.clause_type c) (existing @ [c]) g). cs \<noteq> [] \<and> set cs \<subseteq> A"
  proof (clarify)
    fix ty cs
    assume "(ty, cs) \<in> set (mapSet (Clause.clause_type c) (existing @ [c]) g)"
    from mapSet_groups [OF this] show "cs \<noteq> [] \<and> set cs \<subseteq> A"
      using ex Cons.prems by auto
  qed
  from Cons.IH [OF this] Cons.prems(2) show ?case by (simp add: Let_def existing_def)
qed

lemma groupClausesByType_groups:
  "(ty, cs) \<in> set (groupClausesByType repo) \<Longrightarrow> cs \<noteq> [] \<and> set cs \<subseteq> set repo"
  using groupLoop_groups [of "[]" "set repo" repo] by (auto simp: groupClausesByType_def)

text \<open>
  Claim C6. For every candidate text, repository and threshold: a match returned by
  \<^verbatim>\<open>matchClauseFromRepository\<close> or by \<^verbatim>\<open>findBestClauseTypeMatch\<close> has a score between 0 and 1, and
  each of the two returns \<^verbatim>\<open>null\<close> when the combined score of every repository entry (with
  the weights and n-gram size of that function) is below the threshold. The defaults 0.15 and
  0.12 are instances of the threshold. Scores are doubles: every quotient, product and sum is
  rounded as the engine rounds it.
\<close>

theorem repository_match_score_bounds:
  "(\<forall>m. matchClauseFromRepository candidateText repositoryClauses threshold = Some m
        \<longrightarrow> 0 \<le> score m \<and> score m \<le> 1)
   \<and> (\<forall>m. findBestClauseTypeMatch candidateText repositoryClauses threshold = Some m
        \<longrightarrow> 0 \<le> score m \<and> score m \<le> 1)
   \<and> ((\<forall>c \<in> set repositoryClauses. combinedScore candidateText c < threshold)
        \<longrightarrow> matchClauseFromRepository candidateText repositoryClauses threshold = None)
   \<and> ((\<forall>c \<in> set repositoryClauses. typeScore candidateText c < threshold)
        \<longrightarrow> findBestClauseTypeMatch candidateText repositoryClauses threshold = None)"
proof (intro conjI allI impI)
  fix m
  assume "matchClauseFromRepository candidateText repositoryClauses threshold = Some m"
  then have "scanRepository candidateText threshold repositoryClauses None = Some m"
    by (simp add: matchClauseFromRepository_def split: if_splits)
  from scanRepository_result [OF this] show "0 \<le> score m" "score m \<le> 1"
    using combinedScore_bounds by auto
next
  fix m
  assume "findBestClauseTypeMatch candidateText repositoryClauses threshold = Some m"
  then have "typesLoop candidateText threshold (groupClausesByType repositoryClauses) None = Some m"
    by (simp add: findBestClauseTypeMatch_def)
  from typesLoop_result [OF this] obtain g where
    g: "score m = fst (maxScoreLoop candidateText (snd g) (0, []))" by auto
  from maxScoreLoop_result [of candidateText "snd g" 0 "[]"] g show "0 \<le> score m" "score m \<le> 1"
    using typeScore_bounds by auto
next
  assume low: "\<forall>c \<in> set repositoryClauses. combinedScore candidateText c < threshold"
  show "matchClauseFromRepository candidateText repositoryClauses threshold = None"
  proof (rule ccontr)
    assume "matchClauseFromRepository candidateText repositoryClauses threshold \<noteq> None"
    then obtain m where "scanRepository candidateText threshold repositoryClauses None = Some m"
      by (auto simp: matchClauseFromRepository_def split: if_splits)
    from scanRepository_result [OF this] low show False by auto
  qed
next
  assume low: "\<forall>c \<in> set repositoryClauses. typeScore candidateText c < threshold"
  show "findBestClauseTypeMatch candidateText repositoryClauses threshold = None"
  proof (rule ccontr)
    assume "findBestClauseTypeMatch candidateText repositoryClauses threshold \<noteq> None"
    then obtain m where "typesLoop candidateText threshold (groupClausesByType repositoryClauses) None = Some m"
      by (auto simp: findBestClauseTypeMatch_def)
    from typesLoop_result [OF this] obtain ty cs where
      g: "(ty, cs) \<in> set (groupClausesByType repositoryClauses)"
      and sc: "score m = fst (maxScoreLoop candidateText cs (0, []))" "threshold \<le> score m"
      by auto
    from groupClausesByType_groups [OF g] obtain c0 where
      c0: "c0 \<in> set repositoryClauses" and sub: "set cs \<subseteq> set repositoryClauses"
      by (cases cs) auto
    from low c0 typeScore_bounds [of candidateText c0] have pos: "0 < threshold" by force
    from maxScoreLoop_result [of candidateText cs 0 "[]"] sc sub low pos show False by force
  qed
qed

text \<open>Rounding is seen at an exact tie: with no word in common and 3 of 13 bigrams the exact
  score is 0.15, and the score of the engine, \<^verbatim>\<open>(0 * 0.35) + ((3 / 13) * 0.65)\<close>, is above the
  double 0.15.\<close>

lemma rounded_tie:
  "dadd (dmul 0 (double (35 / 100))) (dmul (ddiv 3 13) (double (65 / 100))) > double (15 / 100)"
  by code_simp

text \<open>A repository of one confidentiality clause, a text close to it and a text that shares no
  word with it.\<close>

definition secretRepository :: "Clause list" where
  "secretRepository = [\<lparr>id' = js ''r1'', Clause.clause_type = js ''Confidentiality'',
     Clause.clause_text = js ''The parties shall keep all pricing data strictly secret.''\<rparr>]"

definition secretText :: jstring where
  "secretText = js ''The parties shall keep all pricing data strictly secret forever.''"

definition costsText :: jstring where
  "costsText = js ''Each side pays its own costs in full every year.''"

lemma secretText_matches:
  "matchClauseFromRepository secretText secretRepository (double (15 / 100))
     = Some \<lparr>clauseType = js ''Confidentiality'', score = 3985685670222889 / 4503599627370496, matchedClauseId = js ''r1''\<rparr>"
  "findBestClauseTypeMatch secretText secretRepository (double (12 / 100))
     = Some \<lparr>clauseType = js ''Confidentiality'', score = 4020713667324659 / 4503599627370496, matchedClauseId = js ''r1''\<rparr>"
  by code_simp+

lemma thresholds_pos: "0 < double (15 / 100)" "0 < double (12 / 100)"
  by code_simp+

lemma costsText_scores:
  "map (combinedScore costsText) secretRepository = [0]"
  "map (typeScore costsText) secretRepository = [0]"
  by code_simp+

theorem repository_match_score_bounds_witness:
  "(\<exists>m. matchClauseFromRepository secretText secretRepository (double (15 / 100)) = Some m
        \<and> score m = 3985685670222889 / 4503599627370496 \<and> 0 \<le> score m \<and> score m \<le> 1)
   \<and> (\<exists>m. findBestClauseTypeMatch secretText secretRepository (double (12 / 100)) = Some m
        \<and> score m = 4020713667324659 / 4503599627370496 \<and> 0 \<le> score m \<and> score m \<le> 1)
   \<and> map (combinedScore costsText) secretRepository = [0]
   \<and> matchClauseFromRepository costsText secretRepository (double (15 / 100)) = None
   \<and> map (typeScore costsText) secretRepository = [0]
   \<and> findBestClauseTypeMatch costsText secretRepository (double (12 / 100)) = None"
proof -
  have low1: "\<forall>c \<in> set secretRepository. combinedScore costsText c < double (15 / 100)"
  proof
    fix c assume "c \<in> set secretRepository"
    then have "combinedScore costsText c \<in> set (map (combinedScore costsText) secretRepository)" by simp
    then show "combinedScore costsText c < double (15 / 100)" unfolding costsText_scores using thresholds_pos by simp
  qed
  have low2: "\<forall>c \<in> set secretRepository. typeScore costsText c < double (12 / 100)"
  proof
    fix c assume "c \<in> set secretRepository"
    then have "typeScore costsText c \<in> set (map (typeScore costsText) secretRepository)" by simp
    then show "typeScore costsText c < double (12 / 100)" unfolding costsText_scores using thresholds_pos by simp
  qed
  have s1: "score \<lparr>clauseType = js ''Confidentiality'', score = 3985685670222889 / 4503599627370496, matchedClauseId = js ''r1''\<rparr> = 3985685670222889 / 4503599627370496"
    and s2: "score \<lparr>clauseType = js ''Confidentiality'', score = 4020713667324659 / 4503599627370496, matchedClauseId = js ''r1''\<rparr> = 4020713667324659 / 4503599627370496"
    by simp_all
  from repository_match_score_bounds [of secretText secretRepository "double (15 / 100)"] secretText_matches(1) s1
  have a: "\<exists>m. matchClauseFromRepository secretText secretRepository (double (15 / 100)) = Some m
        \<and> score m = 3985685670222889 / 4503599627370496 \<and> 0 \<le> score m \<and> score m \<le> 1"
    by blast
  from repository_match_score_bounds [of secretText secretRepository "double (12 / 100)"] secretText_matches(2) s2
  have b: "\<exists>m. findBestClauseTypeMatch secretText secretRepository (double (12 / 100)) = Some m
        \<and> score m = 4020713667324659 / 4503599627370496 \<and> 0 \<le> score m \<and> score m \<le> 1"
    by blast
  from repository_match_score_bounds [of costsText secretRepository "double (15 / 100)"] low1
  have c: "matchClauseFromRepository costsText secretRepository (double (15 / 100)) = None" by blast
  from repository_match_score_bounds [of costsText secretRepository "double (12 / 100)"] low2
  have d: "findBestClauseTypeMatch costsText secretRepository (double (12 / 100)) = None" by blast
  from a b c d costsText_scores show ?thesis by blast
qed

section \<open>Properties of the schema detector\<close>

lemma detectLoop_few:
  "m < 2 \<Longrightarrow> \<forall>p \<in> set ps. matchCount text p < 2 \<Longrightarrow> snd (detectLoop text ps (b, m)) < 2"
  by (induction ps arbitrary: b m) auto

text \<open>
  Claim C8. For every text in which each of the five candidate patterns, hence the
  best-supported one, occurs fewer than 2 times, \<^verbatim>\<open>detectNumberingSchema\<close> returns the split
  pattern of the first candidate, the roman-numeral one, with the type \<^verbatim>\<open>roman\<close>.
\<close>

theorem detectNumberingSchema_defaults_to_roman:
  assumes "\<forall>p \<in> set patterns. matchCount text p < 2"
  shows "detectNumberingSchema text = (splitRegex (patterns ! 0), js ''roman'')"
proof -
  obtain b m where dl: "detectLoop text patterns (hd patterns, 0) = (b, m)"
    by (cases "detectLoop text patterns (hd patterns, 0)")
  have "snd (detectLoop text patterns (hd patterns, 0)) < 2"
    using assms by (intro detectLoop_few) simp_all
  then have m: "m < 2" by (simp add: dl)
  have hd: "hd patterns = patterns ! 0" and ty: "type (patterns ! 0) = js ''roman''"
    by (simp_all add: patterns_def)
  show ?thesis
    unfolding detectNumberingSchema_def dl using m by (simp add: hd ty)
qed

text \<open>A text with one Section header: the Section candidate is the best supported, with one
  occurrence, and the roman pattern is returned.\<close>

definition oneSectionText :: jstring where
  "oneSectionText = js ''Intro'' @ [0x0A] @ js ''Section 1. Scope''"

lemma oneSectionText_counts: "map (matchCount oneSectionText) patterns = [0, 1, 0, 0, 0]"
  by code_simp

theorem detectNumberingSchema_defaults_to_roman_witness:
  "map (matchCount oneSectionText) patterns = [0, 1, 0, 0, 0]
   \<and> detectNumberingSchema oneSectionText = (splitRegex (patterns ! 0), js ''roman'')"
proof -
  have counts: "\<forall>p \<in> set patterns. matchCount oneSectionText p < 2"
  proof
    fix p assume "p \<in> set patterns"
    then have "matchCount oneSectionText p \<in> set (map (matchCount oneSectionText) patterns)" by simp
    then show "matchCount oneSectionText p < 2" unfolding oneSectionText_counts by auto
  qed
  from detectNumberingSchema_defaults_to_roman [OF counts] oneSectionText_counts show ?thesis by blast
qed

section \<open>Properties of the miscellaneous-section expander\<close>

lemma subclauseLoop_cases:
  "subclauseLoop p repo (b # bs) acc = subclauseLoop p repo bs acc
   \<or> (\<exists>ty. ty \<noteq> [] \<and> length (trim b) \<ge> 30 \<and>
        subclauseLoop p repo (b # bs) acc
          = subclauseLoop p repo bs (acc @ [subclauseOf ty p (subclauseTextOf (trim b))]))"
proof (cases "length (trim b) < 30")
  case True
  then show ?thesis by simp
next
  case False
  then show ?thesis
    by (cases "subclauseTypeOf (trim b) repo") (auto simp: Let_def)
qed

lemma subclauseLoop_inv_aux:
  assumes "\<And>ty txt. ty \<noteq> [] \<Longrightarrow> P (subclauseOf ty p txt)"
  shows "(\<And>c. c \<in> set acc \<Longrightarrow> P c) \<Longrightarrow> c \<in> set (subclauseLoop p repo bs acc) \<Longrightarrow> P c"
proof (induction bs arbitrary: acc)
  case Nil
  then show ?case by simp
next
  case (Cons b bs)
  from subclauseLoop_cases [of p repo b bs acc] show ?case
  proof (elim disjE exE conjE)
    assume eq: "subclauseLoop p repo (b # bs) acc = subclauseLoop p repo bs acc"
    from Cons.IH [OF Cons.prems(1)] Cons.prems(2) show ?thesis unfolding eq by blast
  next
    fix ty
    assume ty: "ty \<noteq> []"
      and eq: "subclauseLoop p repo (b # bs) acc
                 = subclauseLoop p repo bs (acc @ [subclauseOf ty p (subclauseTextOf (trim b))])"
    have "\<And>c. c \<in> set (acc @ [subclauseOf ty p (subclauseTextOf (trim b))]) \<Longrightarrow> P c"
      using Cons.prems(1) assms [OF ty] by auto
    from Cons.IH [OF this] Cons.prems(2) show ?thesis unfolding eq by blast
  qed
qed

text \<open>An invariant of the expander: what holds of every sub-clause object with a non-empty type
  holds of every clause it returns.\<close>

lemma subclauses_inv:
  assumes "c \<in> set (extractSubclausesFromMiscellaneous p b repo)"
    and "\<And>ty txt. ty \<noteq> [] \<Longrightarrow> P (subclauseOf ty p txt)"
  shows "P c"
proof -
  from assms(1) have mem: "c \<in> set (subclauseLoop p repo (subBlocksOf b) [])"
    by (simp add: extractSubclausesFromMiscellaneous_def)
  show ?thesis
  proof (rule subclauseLoop_inv_aux [where P = P and acc = "[]", OF assms(2) _ mem])
    fix c' :: ExtractedClause
    assume "c' \<in> set []"
    then show "P c'" by simp
  qed
qed

lemma subclauses_clause_no:
  "c \<in> set (extractSubclausesFromMiscellaneous p b repo) \<Longrightarrow> clause_no c = p"
  by (erule subclauses_inv) (simp add: subclauseOf_def)

text \<open>What a block adds to the result is one regular clause with the parsed number and body, or
  the non-empty list of its sub-clauses.\<close>

lemma emit_cases:
  assumes "emit b repo = Some new"
  shows "(\<exists>ty m s. ty \<noteq> [] \<and> new = [regularClause ty (fst (parseClauseNumber b)) (snd (parseClauseNumber b)) m s])
       \<or> (new \<noteq> [] \<and> new = extractSubclausesFromMiscellaneous (fst (parseClauseNumber b)) b repo)"
proof -
  obtain no body where pc: "parseClauseNumber b = (no, body)" by (cases "parseClauseNumber b")
  obtain dt m s where cl: "classify b repo = (dt, m, s)" by (cases "classify b repo")
  from assms obtain ty where dt: "dt = Some ty" "ty \<noteq> []"
    by (auto simp: emit_def pc cl split: option.splits if_splits)
  let ?subs = "extractSubclausesFromMiscellaneous no b repo"
  have new: "new = (if isMiscellaneousOrGeneralSection no \<and> ?subs \<noteq> [] then ?subs
                    else [regularClause ty no body m s])"
    using assms by (auto simp: emit_def pc cl dt Let_def split: if_splits)
  show ?thesis
  proof (cases "isMiscellaneousOrGeneralSection no \<and> ?subs \<noteq> []")
    case True
    with new show ?thesis by (simp add: pc)
  next
    case False
    with new have "new = [regularClause ty no body m s]" by auto
    with dt(2) show ?thesis unfolding pc by (intro disjI1 exI [of _ ty] exI [of _ m] exI [of _ s]) simp
  qed
qed

text \<open>
  Claim C7. Every sub-clause produced by \<^verbatim>\<open>extractSubclausesFromMiscellaneous\<close> has as
  \<^verbatim>\<open>clause_no\<close> the parent clause number it was called with; and at its call site, every clause
  that a block adds to the result, sub-clause or not, has the \<^verbatim>\<open>clause_no\<close> that
  \<^verbatim>\<open>parseClauseNumber\<close> gives for the block.
\<close>

theorem subclauses_inherit_parent_clause_no:
  "(\<forall>c \<in> set (extractSubclausesFromMiscellaneous parentClauseNo blockText repositoryClauses).
      clause_no c = parentClauseNo)
   \<and> (\<forall>new. emit cleanedBlock repositoryClauses = Some new \<longrightarrow>
        (\<forall>c \<in> set new. clause_no c = fst (parseClauseNumber cleanedBlock)))"
proof (intro conjI allI impI ballI)
  fix c assume "c \<in> set (extractSubclausesFromMiscellaneous parentClauseNo blockText repositoryClauses)"
  then show "clause_no c = parentClauseNo" by (rule subclauses_clause_no)
next
  fix new c
  assume "emit cleanedBlock repositoryClauses = Some new" and c: "c \<in> set new"
  from emit_cases [OF this(1)] c show "clause_no c = fst (parseClauseNumber cleanedBlock)"
    by (auto simp: regularClause_def dest: subclauses_clause_no)
qed

text \<open>The miscellaneous section of Scenario B: two sub-clauses, both numbered as the section.\<close>

definition miscBlock :: jstring where
  "miscBlock = js ''8. MISCELLANEOUS. (a) This Agreement shall be governed by the laws of Delaware. (b) Notices shall be given in writing.''"

lemma miscBlock_subclauses:
  "extractSubclausesFromMiscellaneous (js ''8. MISCELLANEOUS'') miscBlock [] =
     [subclauseOf (js ''Governing Law'') (js ''8. MISCELLANEOUS'')
        (js ''(a) This Agreement shall be governed by the laws of Delaware.''),
      subclauseOf (js ''Notice Period'') (js ''8. MISCELLANEOUS'') (js ''(b) Notices shall be given in writing.'')]"
  by code_simp

lemma miscBlock_parsed:
  "parseClauseNumber miscBlock = (js ''8. MISCELLANEOUS'',
     js ''(a) This Agreement shall be governed by the laws of Delaware. (b) Notices shall be given in writing.'')"
  by code_simp

lemma miscBlock_emit:
  "emit miscBlock [] = Some (extractSubclausesFromMiscellaneous (js ''8. MISCELLANEOUS'') miscBlock [])"
  by code_simp

theorem subclauses_inherit_parent_clause_no_witness:
  "emit miscBlock [] = Some (extractSubclausesFromMiscellaneous (js ''8. MISCELLANEOUS'') miscBlock [])
   \<and> fst (parseClauseNumber miscBlock) = js ''8. MISCELLANEOUS''
   \<and> map clause_no (extractSubclausesFromMiscellaneous (js ''8. MISCELLANEOUS'') miscBlock [])
       = [js ''8. MISCELLANEOUS'', js ''8. MISCELLANEOUS'']"
proof -
  let ?subs = "extractSubclausesFromMiscellaneous (js ''8. MISCELLANEOUS'') miscBlock []"
  have len: "length ?subs = 2"
    by (simp add: miscBlock_subclauses)
  from subclauses_inherit_parent_clause_no [where parentClauseNo = "js ''8. MISCELLANEOUS''"
      and blockText = miscBlock and repositoryClauses = "[]"]
  have "\<forall>c \<in> set ?subs. clause_no c = js ''8. MISCELLANEOUS''" by blast
  then have "map clause_no ?subs = map (\<lambda>c. (js ''8. MISCELLANEOUS'')) ?subs"
    by (intro map_cong) auto
  also have "\<dots> = replicate (length ?subs) (js ''8. MISCELLANEOUS'')"
    by (rule map_replicate_const)
  also have "\<dots> = [js ''8. MISCELLANEOUS'', js ''8. MISCELLANEOUS'']"
    unfolding len by (simp add: numeral_2_eq_2)
  finally show ?thesis
    using miscBlock_emit miscBlock_parsed by simp
qed

text \<open>
  Claim C9. Every clause returned by \<^verbatim>\<open>extractSubclausesFromMiscellaneous\<close> has
  \<^verbatim>\<open>matched_from_repository\<close> false and \<^verbatim>\<open>similarity_score\<close> 0, whichever way its type was
  found: by the keyword detector or by a repository match with a score above 0.15.
\<close>

theorem subclauses_carry_no_repository_provenance:
  "\<forall>c \<in> set (extractSubclausesFromMiscellaneous parentClauseNo blockText repositoryClauses).
      matched_from_repository c = False \<and> similarity_score c = 0"
proof
  fix c
  assume "c \<in> set (extractSubclausesFromMiscellaneous parentClauseNo blockText repositoryClauses)"
  then show "matched_from_repository c = False \<and> similarity_score c = 0"
    by (rule subclauses_inv) (simp add: subclauseOf_def)
qed

text \<open>A general section whose first sub-clause has no keyword of the detector and takes its type
  from the repository, with score 167/180; the second one finds no type and is dropped.\<close>

definition generalBlock :: jstring where
  "generalBlock = js ''9. GENERAL. (a) The parties shall keep all pricing data strictly secret. (b) Each side pays its own costs in full every year.''"

lemma generalBlock_repository_type:
  "detectMiscellaneousSubclauseType (js ''(a) The parties shall keep all pricing data strictly secret.'') = None
   \<and> findBestClauseTypeMatch (js ''(a) The parties shall keep all pricing data strictly secret.'')
        secretRepository (double (12 / 100))
       = Some \<lparr>clauseType = js ''Confidentiality'', score = 8356679308565253 / 9007199254740992, matchedClauseId = js ''r1''\<rparr>"
  by code_simp

lemma generalBlock_subclauses:
  "extractSubclausesFromMiscellaneous (js ''9. GENERAL'') generalBlock secretRepository =
     [subclauseOf (js ''Confidentiality'') (js ''9. GENERAL'')
        (js ''(a) The parties shall keep all pricing data strictly secret.'')]"
  by code_simp

theorem subclauses_carry_no_repository_provenance_witness:
  "map clause_type (extractSubclausesFromMiscellaneous (js ''9. GENERAL'') generalBlock secretRepository)
     = [js ''Confidentiality'']
   \<and> map (\<lambda>c. (matched_from_repository c, similarity_score c))
        (extractSubclausesFromMiscellaneous (js ''9. GENERAL'') generalBlock secretRepository) = [(False, 0)]"
proof -
  let ?subs = "extractSubclausesFromMiscellaneous (js ''9. GENERAL'') generalBlock secretRepository"
  have len: "length ?subs = 1" and ty: "map clause_type ?subs = [js ''Confidentiality'']"
    by (simp_all add: generalBlock_subclauses subclauseOf_def)
  from subclauses_carry_no_repository_provenance [of "js ''9. GENERAL''" generalBlock secretRepository]
  have "map (\<lambda>c. (matched_from_repository c, similarity_score c)) ?subs = map (\<lambda>c. (False, 0)) ?subs"
    by (intro map_cong) auto
  also have "\<dots> = replicate (length ?subs) (False, 0)"
    by (rule map_replicate_const)
  also have "\<dots> = [(False, 0)]"
    unfolding len by simp
  finally show ?thesis
    using ty by simp
qed


section \<open>Scenario A\<close>

definition numericSchema :: NumberingSchema where
  \<comment> \<open>\<^verbatim>\<open>{mainClause: "numeric"}\<close>, the sub-clause levels (never read by the engine) set to \<^verbatim>\<open>"none"\<close>\<close>
  "numericSchema = \<lparr>mainClause = js ''numeric'', subClause1 = js ''none'', subClause2 = js ''none'', subClause3 = None\<rparr>"

definition scenarioA :: jstring where
  "scenarioA = js ''1. INDEMNITY. Each party shall indemnify the other.'' @ [0x0A]
     @ js ''2. TERM. This agreement lasts one year.''"

lemma scenarioA_result:
  "extractClausesRuleBased scenarioA [] (Some numericSchema) =
     [\<lparr>clause_type = js ''Indemnification'', clause_text = js ''Each party shall indemnify the other.'', clause_no = js ''1. INDEMNITY'',
        preferred_position = js ''Standard legal position for Indemnification'', party_role = js ''Neutral'',
        complexity = 5, balance = 0, matched_from_repository = False, similarity_score = 0\<rparr>,
      \<lparr>clause_type = js ''Termination'', clause_text = js ''This agreement lasts one year.'', clause_no = js ''2. TERM'',
        preferred_position = js ''Standard legal position for Termination'', party_role = js ''Neutral'',
        complexity = 5, balance = 0, matched_from_repository = False, similarity_score = 0\<rparr>]"
  by code_simp

lemma scenarioA_title: "cleanTitle (js ''TERM'') = js ''Termination''"
  by code_simp

text \<open>
  Claim C1, as stated, fails: the second clause of Scenario A is not typed \<^verbatim>\<open>General Clause\<close>.
  The table of \<^verbatim>\<open>cleanTitle\<close> lists \<^verbatim>\<open>"term": "Termination"\<close>, and the title \<^verbatim>\<open>TERM\<close> of
  the second block goes through it.
\<close>

theorem scenarioA_second_type_counterexample:
  "length (extractClausesRuleBased scenarioA [] (Some numericSchema)) = 2
   \<and> clause_no (extractClausesRuleBased scenarioA [] (Some numericSchema) ! 1) = js ''2. TERM''
   \<and> clause_type (extractClausesRuleBased scenarioA [] (Some numericSchema) ! 1) \<noteq> (js ''General Clause'')"
  by (simp add: scenarioA_result)

text \<open>
  Claim C1, amended. For Scenario A with schema \<^verbatim>\<open>{mainClause: "numeric"}\<close> and an empty
  repository, \<^verbatim>\<open>extractClausesRuleBased\<close> returns exactly 2 clauses: the first with
  \<^verbatim>\<open>clause_no\<close> \<^verbatim>\<open>1. INDEMNITY\<close> and type \<^verbatim>\<open>Indemnification\<close>, the second with \<^verbatim>\<open>clause_no\<close>
  \<^verbatim>\<open>2. TERM\<close> and, \<^verbatim>\<open>term\<close> being a key of the header-title table, type \<^verbatim>\<open>Termination\<close>.
\<close>

theorem scenarioA_clauses:
  "map clause_no (extractClausesRuleBased scenarioA [] (Some numericSchema)) = [js ''1. INDEMNITY'', js ''2. TERM'']
   \<and> map clause_type (extractClausesRuleBased scenarioA [] (Some numericSchema))
       = [js ''Indemnification'', js ''Termination'']
   \<and> map clause_text (extractClausesRuleBased scenarioA [] (Some numericSchema))
       = [js ''Each party shall indemnify the other.'', js ''This agreement lasts one year.'']
   \<and> cleanTitle (js ''TERM'') = js ''Termination''"
  by (simp add: scenarioA_result scenarioA_title)

section \<open>The preamble\<close>

definition preambleAuto :: jstring where
  \<comment> \<open>a preamble and one roman-numbered clause; no schema is given\<close>
  "preambleAuto = js ''This agreement is made by A and B.'' @ [0x0A]
     @ js ''I. TERM. This lasts for one year only.''"

definition preambleNumeric :: jstring where
  \<comment> \<open>a preamble and two numbered clauses; the schema is \<^verbatim>\<open>numeric\<close>\<close>
  "preambleNumeric = js ''This agreement is made by A and B.'' @ [0x0A]
     @ js ''1. TERM. This lasts for one year only.'' @ [0x0A]
     @ js ''2. FEES. The fee is due within ten days.''"

lemma preambleAuto_split:
  "stringSplit (removePageNumbers preambleAuto) (fst (detectNumberingSchema (removePageNumbers preambleAuto)))
     = [js ''This agreement is made by A and B.'', js ''I'', js ''I. TERM. This lasts for one year only.'']"
  by code_simp

lemma preambleAuto_header:
  "rxTest defaultHeaderRegex (js ''This agreement is made by A and B.'') = False"
  by code_simp

lemma preambleAuto_result:
  "extractClausesRuleBased preambleAuto [] None =
     [\<lparr>clause_type = js ''Document Name'', clause_text = js ''This agreement is made by A and B.'', clause_no = [],
        preferred_position = js ''Standard legal position for Document Name'', party_role = js ''Neutral'',
        complexity = 5, balance = 0, matched_from_repository = False, similarity_score = 0\<rparr>,
      \<lparr>clause_type = js ''Termination'', clause_text = js ''This lasts for one year only.'', clause_no = js ''I. TERM'',
        preferred_position = js ''Standard legal position for Termination'', party_role = js ''Neutral'',
        complexity = 5, balance = 0, matched_from_repository = False, similarity_score = 0\<rparr>]"
  by code_simp

lemma preambleNumeric_split:
  "stringSplit (removePageNumbers preambleNumeric) (the (getSchemaSplitRegex (js ''numeric'')))
     = [js ''This agreement is made by A and B.'', js ''1. TERM. This lasts for one year only.'',
        js ''2. FEES. The fee is due within ten days.'']"
  "primarySplit (removePageNumbers preambleNumeric) (getSchemaSplitRegex (js ''numeric'')) (getSchemaRegex (js ''numeric''))
     = [js ''1. TERM. This lasts for one year only.'', js ''2. FEES. The fee is due within ten days.'']"
  by code_simp+

lemma preambleNumeric_result:
  "extractClausesRuleBased preambleNumeric [] (Some numericSchema) =
     [\<lparr>clause_type = js ''Document Name'', clause_text = js ''This agreement is made by A and B.'', clause_no = [],
        preferred_position = js ''Standard legal position for Document Name'', party_role = js ''Neutral'',
        complexity = 5, balance = 0, matched_from_repository = False, similarity_score = 0\<rparr>,
      \<lparr>clause_type = js ''Termination'', clause_text = js ''This lasts for one year only.'', clause_no = js ''1. TERM'',
        preferred_position = js ''Standard legal position for Termination'', party_role = js ''Neutral'',
        complexity = 5, balance = 0, matched_from_repository = False, similarity_score = 0\<rparr>,
      \<lparr>clause_type = js ''Payment Terms'', clause_text = js ''The fee is due within ten days.'', clause_no = js ''2. FEES'',
        preferred_position = js ''Standard legal position for Payment Terms'', party_role = js ''Neutral'',
        complexity = 5, balance = 0, matched_from_repository = False, similarity_score = 0\<rparr>]"
  by code_simp

text \<open>
  Claim C3, as stated, fails at two inputs. Without a schema the split gives three pieces, the first line of the
  first piece does not match the header pattern, and the preamble is the text of the first
  returned clause: \<^verbatim>\<open>mainHeaderRegex\<close> is still \<^verbatim>\<open>null\<close> when the preamble is tested. With the
  schema \<^verbatim>\<open>numeric\<close> the preamble is removed from the three pieces, and the two pieces left
  being fewer than three, the split by \<^verbatim>\<open>numericCapsRegex\<close> brings it back.
\<close>

theorem preamble_is_returned:
  "length (stringSplit (removePageNumbers preambleAuto)
             (fst (detectNumberingSchema (removePageNumbers preambleAuto)))) = 3
   \<and> rxTest defaultHeaderRegex (js ''This agreement is made by A and B.'') = False
   \<and> map clause_text (extractClausesRuleBased preambleAuto [] None)
       = [js ''This agreement is made by A and B.'', js ''This lasts for one year only.'']
   \<and> primarySplit (removePageNumbers preambleNumeric) (getSchemaSplitRegex (js ''numeric'')) (getSchemaRegex (js ''numeric''))
       = [js ''1. TERM. This lasts for one year only.'', js ''2. FEES. The fee is due within ten days.'']
   \<and> map clause_text (extractClausesRuleBased preambleNumeric [] (Some numericSchema))
       = [js ''This agreement is made by A and B.'', js ''This lasts for one year only.'',
          js ''The fee is due within ten days.'']"
  by (simp add: preambleAuto_split preambleAuto_header preambleAuto_result preambleNumeric_split
        preambleNumeric_result)

lemma mergeBlocks_head:
  "blocks \<noteq> [] \<Longrightarrow> prefix b0 (hd blocks) \<Longrightarrow>
     mergeBlocks hdr xs blocks \<noteq> [] \<and> prefix b0 (hd (mergeBlocks hdr xs blocks))"
proof (induction xs arbitrary: blocks)
  case Nil
  then show ?case by simp
next
  case (Cons x xs)
  let ?t = "trim x"
  let ?merged = "butlast blocks @ [last blocks @ [0x0A, 0x0A] @ ?t]"
  have push: "blocks @ [?t] \<noteq> [] \<and> prefix b0 (hd (blocks @ [?t]))"
    using Cons.prems by simp
  have merged: "?merged \<noteq> [] \<and> prefix b0 (hd ?merged)"
  proof (cases "butlast blocks")
    case Nil
    with Cons.prems have "blocks = [hd blocks]"
      by (cases blocks) (auto split: if_splits)
    then have "hd ?merged = hd blocks @ [0x0A, 0x0A] @ ?t"
      by (metis Nil append_Nil last.simps list.sel(1))
    with Cons.prems(2) show ?thesis by (auto intro: prefix_prefix)
  next
    case (Cons y ys)
    then have "hd ?merged = hd blocks"
      using Cons.prems(1) by (cases blocks) (auto split: if_splits)
    with Cons.prems(2) show ?thesis by simp
  qed
  show ?case
    using Cons.IH [of blocks] Cons.IH [of "blocks @ [?t]"] Cons.IH [of ?merged] Cons.prems push merged
    by (simp add: Let_def)
qed

text \<open>
  Claim C3, amended. With a caller-supplied schema (a registered identifier other than
  \<^verbatim>\<open>none\<close>): when the split yields more than one piece, the first line of the first piece does
  not match the header pattern of the schema, and at least three pieces follow it, the first
  piece is dropped and the blocks are built from the pieces that follow. With an auto-detected
  schema no header pattern is set when the preamble is tested, and the first piece is not
  dropped: when the split yields at least three pieces and the first has at least 10
  characters after trimming, it starts the first block.
\<close>

theorem preamble_dropped_only_by_caller_schema:
  "(\<forall>us sr hr p ps.
       mainClause us \<noteq> (js ''none'') \<and> getSchemaSplitRegex (mainClause us) = Some sr
       \<and> getSchemaRegex (mainClause us) = Some hr
       \<and> stringSplit cleanedText sr = p # ps \<and> 3 \<le> length ps
       \<and> \<not> rxTest hr (hd (splitChar 0x0A (trim p)))
       \<longrightarrow> segment cleanedText (Some us) = mergeBlocks hr ps [])
   \<and> (\<forall>sr ty p ps.
       detectNumberingSchema cleanedText = (sr, ty) \<and> stringSplit cleanedText sr = p # ps
       \<and> 2 \<le> length ps \<and> 10 \<le> length (trim p)
       \<longrightarrow> segment cleanedText None \<noteq> [] \<and> prefix (trim p) (hd (segment cleanedText None)))"
proof (intro conjI allI impI)
  fix us :: NumberingSchema and sr hr p ps
  assume a: "mainClause us \<noteq> (js ''none'') \<and> getSchemaSplitRegex (mainClause us) = Some sr
       \<and> getSchemaRegex (mainClause us) = Some hr
       \<and> stringSplit cleanedText sr = p # ps \<and> 3 \<le> length ps
       \<and> \<not> rxTest hr (hd (splitChar 0x0A (trim p)))"
  then have cs: "chooseSchema cleanedText (Some us) = (Some sr, Some hr, mainClause us)"
    by (simp add: chooseSchema_def)
  from a have ps: "primarySplit cleanedText (Some sr) (Some hr) = ps"
    by (auto simp: primarySplit_def Let_def)
  from a have wa: "withAlternatives cleanedText (ps, mainClause us) = (ps, mainClause us)"
    by (simp add: withAlternatives_def)
  show "segment cleanedText (Some us) = mergeBlocks hr ps []"
    by (simp add: segment_def cs ps wa resolveHeaderRegex_def)
next
  fix sr ty p ps
  assume a: "detectNumberingSchema cleanedText = (sr, ty) \<and> stringSplit cleanedText sr = p # ps
       \<and> 2 \<le> length ps \<and> 10 \<le> length (trim p)"
  then have cs: "chooseSchema cleanedText None = (Some sr, None, ty)"
    by (simp add: chooseSchema_def)
  from a have ps: "primarySplit cleanedText (Some sr) None = p # ps"
    by (simp add: primarySplit_def Let_def)
  from a have wa: "withAlternatives cleanedText (p # ps, ty) = (p # ps, ty)"
    by (simp add: withAlternatives_def)
  have seg: "segment cleanedText None = mergeBlocks (resolveHeaderRegex None ty) ps [trim p]"
    using a by (simp add: segment_def cs ps wa Let_def)
  from mergeBlocks_head [of "[trim p]" "trim p" "resolveHeaderRegex None ty" ps]
  show "segment cleanedText None \<noteq> []" "prefix (trim p) (hd (segment cleanedText None))"
    unfolding seg by simp_all
qed

text \<open>A preamble and three numbered clauses, split by the schema \<^verbatim>\<open>numeric\<close>.\<close>

definition preambleThree :: jstring where
  "preambleThree = js ''This agreement is made by A and B.'' @ [0x0A]
     @ js ''1. TERM. This lasts for one year only.'' @ [0x0A]
     @ js ''2. FEES. The fee is due within ten days.'' @ [0x0A]
     @ js ''3. LAW. The law of Utopia governs this.''"

lemma numeric_registered:
  "\<exists>sr hr. getSchemaSplitRegex (js ''numeric'') = Some sr \<and> getSchemaRegex (js ''numeric'') = Some hr"
  by (simp add: getSchemaSplitRegex_def getSchemaRegex_def)

lemma preambleThree_split:
  "stringSplit preambleThree (the (getSchemaSplitRegex (js ''numeric'')))
     = [js ''This agreement is made by A and B.'', js ''1. TERM. This lasts for one year only.'',
        js ''2. FEES. The fee is due within ten days.'', js ''3. LAW. The law of Utopia governs this.'']"
  by code_simp

lemma preambleThree_header:
  "rxTest (the (getSchemaRegex (js ''numeric''))) (hd (splitChar 0x0A (trim (js ''This agreement is made by A and B.'')))) = False"
  by code_simp

lemma preambleThree_merge:
  "mergeBlocks (the (getSchemaRegex (js ''numeric''))) [js ''1. TERM. This lasts for one year only.'',
        js ''2. FEES. The fee is due within ten days.'', js ''3. LAW. The law of Utopia governs this.''] []
   = [js ''1. TERM. This lasts for one year only.'',
        js ''2. FEES. The fee is due within ten days.'', js ''3. LAW. The law of Utopia governs this.'']"
  by code_simp

lemma preambleAuto_pieces:
  "stringSplit preambleAuto (fst (detectNumberingSchema preambleAuto))
     = [js ''This agreement is made by A and B.'', js ''I'', js ''I. TERM. This lasts for one year only.'']"
  by code_simp

lemma preambleAuto_trim: "trim (js ''This agreement is made by A and B.'') = js ''This agreement is made by A and B.''"
  by code_simp

theorem preamble_dropped_only_by_caller_schema_witness:
  "segment preambleThree (Some numericSchema)
     = [js ''1. TERM. This lasts for one year only.'', js ''2. FEES. The fee is due within ten days.'',
        js ''3. LAW. The law of Utopia governs this.'']
   \<and> prefix (js ''This agreement is made by A and B.'') (hd (segment preambleAuto None))"
proof -
  obtain sr hr where reg: "getSchemaSplitRegex (js ''numeric'') = Some sr" "getSchemaRegex (js ''numeric'') = Some hr"
    using numeric_registered by blast
  have mc: "mainClause numericSchema = js ''numeric''" by (simp add: numericSchema_def)
  have h1: "mainClause numericSchema \<noteq> (js ''none'') \<and> getSchemaSplitRegex (mainClause numericSchema) = Some sr
       \<and> getSchemaRegex (mainClause numericSchema) = Some hr
       \<and> stringSplit preambleThree sr = js ''This agreement is made by A and B.''
            # [js ''1. TERM. This lasts for one year only.'', js ''2. FEES. The fee is due within ten days.'',
               js ''3. LAW. The law of Utopia governs this.'']
       \<and> 3 \<le> length [js ''1. TERM. This lasts for one year only.'', js ''2. FEES. The fee is due within ten days.'',
               js ''3. LAW. The law of Utopia governs this.'']
       \<and> \<not> rxTest hr (hd (splitChar 0x0A (trim (js ''This agreement is made by A and B.''))))"
    using preambleThree_split preambleThree_header by (simp add: mc reg)
  have a: "segment preambleThree (Some numericSchema)
     = [js ''1. TERM. This lasts for one year only.'', js ''2. FEES. The fee is due within ten days.'',
        js ''3. LAW. The law of Utopia governs this.'']"
    using preamble_dropped_only_by_caller_schema [of preambleThree, THEN conjunct1, rule_format, OF h1] preambleThree_merge
    by (simp add: reg)
  obtain dsr dty where det: "detectNumberingSchema preambleAuto = (dsr, dty)"
    by (cases "detectNumberingSchema preambleAuto")
  have h2: "detectNumberingSchema preambleAuto = (dsr, dty)
       \<and> stringSplit preambleAuto dsr = js ''This agreement is made by A and B.''
            # [js ''I'', js ''I. TERM. This lasts for one year only.'']
       \<and> 2 \<le> length [js ''I'', js ''I. TERM. This lasts for one year only.'']
       \<and> 10 \<le> length (trim (js ''This agreement is made by A and B.''))"
    using preambleAuto_pieces by (simp add: det preambleAuto_trim)
  have b: "prefix (js ''This agreement is made by A and B.'') (hd (segment preambleAuto None))"
    using preamble_dropped_only_by_caller_schema [of preambleAuto, THEN conjunct2, rule_format, OF h2]
    by (simp add: preambleAuto_trim)
  from a b show ?thesis by blast
qed

section \<open>Duplicates\<close>


lemma blocksLoop_cases:
  "blocksLoop repo (b # bs) (cl, seen) = blocksLoop repo bs (cl, seen)
   \<or> (trim b \<notin> set seen \<and> length (trim b) \<ge> 30
       \<and> length (trim (stringReplace (trim b) pageNoiseRegex [])) \<ge> 20
       \<and> (\<exists>new. emit (trim (stringReplace (trim b) pageNoiseRegex [])) repo = Some new
            \<and> blocksLoop repo (b # bs) (cl, seen) = blocksLoop repo bs (cl @ new, seen @ [trim b])))"
  by (cases "emit (trim (stringReplace (trim b) pageNoiseRegex [])) repo") (auto simp: Let_def)








section \<open>What a match consumes\<close>

text \<open>
  A successful run of the matcher hands its continuation a state that lies further right in the
  same text: the pattern has consumed a piece \<open>w\<close> of the remaining text, at least as long as the
  shortest word of the pattern, and every capture recorded on the way is a piece of the text.
\<close>

fun minlen :: "rx \<Rightarrow> nat" where
  "minlen (Lit a) = 1"
| "minlen (Set neg m) = 1"
| "minlen Dot = 1"
| "minlen (Seq a b) = minlen a + minlen b"
| "minlen (Alt a b) = min (minlen a) (minlen b)"
| "minlen (Rep mn mx g a) = (case mx of None \<Rightarrow> mn | Some n \<Rightarrow> min mn n) * minlen a"
| "minlen (Grp n a) = minlen a"
| "minlen r = 0"

definition textOf :: "mstate \<Rightarrow> jstring" where
  "textOf st = rev (fst st) @ fst (snd st)"

definition capsIn :: "jstring \<Rightarrow> captures \<Rightarrow> bool" where
  "capsIn t caps = (\<forall>v \<in> snd ` set caps. sublist v t)"

definition reaches :: "nat \<Rightarrow> mstate \<Rightarrow> mstate \<Rightarrow> bool" where
  "reaches n st st' =
     ((\<exists>w. fst (snd st) = w @ fst (snd st') \<and> fst st' = rev w @ fst st \<and> n \<le> length w)
      \<and> (capsIn (textOf st) (snd (snd st)) \<longrightarrow> capsIn (textOf st) (snd (snd st'))))"

lemma reaches_refl: "reaches 0 st st"
  by (simp add: reaches_def)

lemma reaches_text: "reaches n st st' \<Longrightarrow> textOf st' = textOf st"
  by (auto simp: reaches_def textOf_def)

lemma reaches_trans:
  assumes "reaches n a b" and "reaches m b c"
  shows "reaches (n + m) a c"
proof -
  from assms(1) obtain w where w: "fst (snd a) = w @ fst (snd b)" "fst b = rev w @ fst a" "n \<le> length w"
    by (auto simp: reaches_def)
  from assms(2) obtain v where v: "fst (snd b) = v @ fst (snd c)" "fst c = rev v @ fst b" "m \<le> length v"
    by (auto simp: reaches_def)
  have "fst (snd a) = (w @ v) @ fst (snd c)" "fst c = rev (w @ v) @ fst a" "n + m \<le> length (w @ v)"
    using w v by simp_all
  moreover have "capsIn (textOf a) (snd (snd a)) \<longrightarrow> capsIn (textOf a) (snd (snd c))"
    using assms reaches_text [OF assms(1)] by (simp add: reaches_def)
  ultimately show ?thesis
    unfolding reaches_def by blast
qed

lemma reaches_weaken: "reaches n a b \<Longrightarrow> m \<le> n \<Longrightarrow> reaches m a b"
  by (auto simp: reaches_def)

lemma reaches_char: "reaches 1 (pre, c # cs, caps) (c # pre, cs, caps)"
  unfolding reaches_def by (auto intro: exI [of _ "[c]"])

lemma reaches_group:
  assumes "reaches n (pre, suf, caps) (pre', suf', caps')"
  shows "reaches n (pre, suf, caps) (pre', suf', (g, rev (take (length pre' - length pre) pre')) # caps')"
proof -
  from assms obtain w where w: "suf = w @ suf'" "pre' = rev w @ pre" "n \<le> length w"
    by (auto simp: reaches_def)
  have cap: "rev (take (length pre' - length pre) pre') = w"
    using w by simp
  have "sublist w (rev pre @ suf)"
    unfolding w by (metis sublist_appendI)
  with assms w show ?thesis
    unfolding reaches_def cap by (auto simp: capsIn_def textOf_def)
qed

lemma reaches_caps:
  assumes "reaches n (pre, suf, caps) (pre', suf', caps')"
  shows "reaches 0 (pre, suf, caps) (pre, suf, caps')"
  using assms by (auto simp: reaches_def textOf_def)

lemma passI: "k st' = Some res \<Longrightarrow> reaches n st st' \<Longrightarrow> m \<le> n \<Longrightarrow> \<exists>st'. k st' = Some res \<and> reaches m st st'"
  using reaches_weaken by blast

lemma rxm_passes:
  "rxm ic ds r k st = Some res \<Longrightarrow> \<exists>st'. k st' = Some res \<and> reaches (minlen r) st st'"
proof (induction ic ds r k st arbitrary: res rule: rxm.induct)
  case (1 ic ds a k pre suf caps)
  then obtain c cs where "suf = c # cs" "k (c # pre, cs, caps) = Some res"
    by (auto split: list.splits if_splits)
  then have "k (c # pre, cs, caps) = Some res \<and> reaches (minlen (Lit a)) (pre, suf, caps) (c # pre, cs, caps)"
    using reaches_char [of pre c cs caps] by simp
  then show ?case by (rule exI)
next
  case (2 ic ds neg m k pre suf caps)
  then obtain c cs where "suf = c # cs" "k (c # pre, cs, caps) = Some res"
    by (auto split: list.splits if_splits)
  then have "k (c # pre, cs, caps) = Some res \<and> reaches (minlen (Set neg m)) (pre, suf, caps) (c # pre, cs, caps)"
    using reaches_char [of pre c cs caps] by simp
  then show ?case by (rule exI)
next
  case (3 ic ds k pre suf caps)
  then obtain c cs where "suf = c # cs" "k (c # pre, cs, caps) = Some res"
    by (auto split: list.splits if_splits)
  then have "k (c # pre, cs, caps) = Some res \<and> reaches (minlen Dot) (pre, suf, caps) (c # pre, cs, caps)"
    using reaches_char [of pre c cs caps] by simp
  then show ?case by (rule exI)
next
  case (4 ic ds k st)
  then have "k st = Some res \<and> reaches 0 st st" by (simp add: reaches_refl)
  then show ?case by (intro exI [of _ "st"]) simp
next
  case (5 ic ds a b k st)
  from "5.prems" have "rxm ic ds a (rxm ic ds b k) st = Some res" by simp
  from "5.IH"(2) [OF this] obtain st1 where
    st1: "rxm ic ds b k st1 = Some res" "reaches (minlen a) st st1" by blast
  from "5.IH"(1) [OF st1(1)] obtain st2 where
    st2: "k st2 = Some res" "reaches (minlen b) st1 st2" by blast
  from st2(1) reaches_trans [OF st1(2) st2(2)] show ?case by (rule passI) simp
next
  case (6 ic ds a b k st)
  show ?case
  proof (cases "rxm ic ds a k st")
    case None
    with "6.prems" have "rxm ic ds b k st = Some res" by simp
    from "6.IH"(2) [OF None this] obtain st' where "k st' = Some res" "reaches (minlen b) st st'" by blast
    then show ?thesis by (rule passI) simp
  next
    case (Some r)
    with "6.prems" have "rxm ic ds a k st = Some res" by simp
    from "6.IH"(1) [OF this] obtain st' where "k st' = Some res" "reaches (minlen a) st st'" by blast
    then show ?thesis by (rule passI) simp
  qed
next
  case (7 ic ds mn mx g a k st)
  define guard where "guard = (\<lambda>st'. if length (fst (snd st')) < length (fst (snd st))
                       then rxm ic ds (Rep 0 (decMax mx) g a) k st' else None)"
  have direct: "k st = Some res \<Longrightarrow> mn = 0 \<or> mx = Some 0 \<Longrightarrow> ?case"
    by (erule passI [OF _ reaches_refl]) (auto split: option.splits)
  have iterate: ?case if nz: "mx \<noteq> Some 0" "mn = 0" and it: "rxm ic ds a guard st = Some res"
    and ih: "\<And>res. rxm ic ds a guard st = Some res \<Longrightarrow> \<exists>st'. guard st' = Some res \<and> reaches (minlen a) st st'"
    and ih2: "\<And>x res. length (fst (snd x)) < length (fst (snd st)) \<Longrightarrow> rxm ic ds (Rep 0 (decMax mx) g a) k x = Some res
       \<Longrightarrow> \<exists>st'. k st' = Some res \<and> reaches (minlen (Rep 0 (decMax mx) g a)) x st'"
  proof -
    from ih [OF it] obtain st1 where st1: "guard st1 = Some res" "reaches (minlen a) st st1" by blast
    then have lt: "length (fst (snd st1)) < length (fst (snd st))"
      and r: "rxm ic ds (Rep 0 (decMax mx) g a) k st1 = Some res"
      by (auto simp: guard_def split: if_splits)
    from ih2 [OF lt r] obtain st2 where st2: "k st2 = Some res" "reaches (minlen (Rep 0 (decMax mx) g a)) st1 st2"
      by blast
    from st2(1) reaches_trans [OF st1(2) st2(2)] show ?thesis by (rule passI) (simp add: nz split: option.splits)
  qed
  show ?case
  proof (cases "mx = Some 0")
    case True
    with "7.prems" direct show ?thesis by simp
  next
    case nz: False
    show ?thesis
    proof (cases "0 < mn")
      case True
      with nz "7.prems" have "rxm ic ds a (rxm ic ds (Rep (mn - 1) (decMax mx) g a) k) st = Some res" by simp
      from "7.IH"(2) [OF nz True this] obtain st1 where
        st1: "rxm ic ds (Rep (mn - 1) (decMax mx) g a) k st1 = Some res" "reaches (minlen a) st st1" by blast
      from "7.IH"(1) [OF nz True st1(1)] obtain st2 where
        st2: "k st2 = Some res" "reaches (minlen (Rep (mn - 1) (decMax mx) g a)) st1 st2" by blast
      have "minlen (Rep mn mx g a) \<le> minlen a + minlen (Rep (mn - 1) (decMax mx) g a)"
      proof (cases mx)
        case None
        with True show ?thesis by (cases mn) simp_all
      next
        case (Some n)
        with nz True show ?thesis by (cases mn; cases n) (simp_all add: min_def)
      qed
      with st2(1) reaches_trans [OF st1(2) st2(2)] show ?thesis by (rule passI)
    next
      case False
      then have mn: "mn = 0" by simp
      have eq: "rxm ic ds (Rep mn mx g a) k st =
          (if g then (case rxm ic ds a guard st of Some r \<Rightarrow> Some r | None \<Rightarrow> k st)
           else (case k st of Some r \<Rightarrow> Some r | None \<Rightarrow> rxm ic ds a guard st))"
        unfolding guard_def using nz mn by simp
      show ?thesis
      proof (cases g)
        case True
        from "7.IH"(4) [OF nz False True] have ih: "\<And>res. rxm ic ds a guard st = Some res \<Longrightarrow>
            \<exists>st'. guard st' = Some res \<and> reaches (minlen a) st st'"
          unfolding guard_def by blast
        show ?thesis
        proof (cases "rxm ic ds a guard st")
          case None
          with eq True "7.prems" have "k st = Some res" by simp
          with direct mn show ?thesis by simp
        next
          case (Some r)
          with eq True "7.prems" have it: "rxm ic ds a guard st = Some res" by simp
          show ?thesis
            using iterate [OF nz mn it] ih "7.IH"(3) [OF nz False True]
            by blast
        qed
      next
        case lazy: False
        show ?thesis
        proof (cases "k st")
          case None
          from "7.IH"(6) [OF nz False lazy None] have ih: "\<And>res. rxm ic ds a guard st = Some res \<Longrightarrow>
              \<exists>st'. guard st' = Some res \<and> reaches (minlen a) st st'"
            unfolding guard_def by blast
          from None eq lazy "7.prems" have it: "rxm ic ds a guard st = Some res" by simp
          show ?thesis
            using iterate [OF nz mn it] ih "7.IH"(5) [OF nz False lazy None]
            by blast
        next
          case (Some r)
          with eq lazy "7.prems" have "k st = Some res" by simp
          with direct mn show ?thesis by simp
        qed
      qed
    qed
  qed
next
  case (8 ic ds n a k pre suf caps)
  let ?k = "\<lambda>(pre', suf', caps'). k (pre', suf', (n, rev (take (length pre' - length pre) pre')) # caps')"
  from "8.prems" have "rxm ic ds a ?k (pre, suf, caps) = Some res" by simp
  from "8.IH" [OF this] obtain st1 where
    a: "?k st1 = Some res" and b: "reaches (minlen a) (pre, suf, caps) st1"
    by blast
  obtain pre' suf' caps' where eq: "st1 = (pre', suf', caps')"
    by (cases st1)
  note st1 = a [unfolded eq] b [unfolded eq]
  from st1(1) have "k (pre', suf', (n, rev (take (length pre' - length pre) pre')) # caps') = Some res" by simp
  then show ?case using reaches_group [OF st1(2)] by (rule passI) simp
next
  case (9 ic ds a k pre suf caps)
  from "9.prems" obtain pre' suf' caps' where
    inner: "rxm ic ds a Some (pre, suf, caps) = Some (pre', suf', caps')" and k: "k (pre, suf, caps') = Some res"
    by (auto split: option.splits)
  from "9.IH" [OF inner] have "reaches (minlen a) (pre, suf, caps) (pre', suf', caps')" by auto
  from k reaches_caps [OF this] show ?case by (rule passI) simp
next
  case (10 ic ds a k st)
  then have "k st = Some res" by (auto split: option.splits)
  then have "k st = Some res \<and> reaches 0 st st" by (simp add: reaches_refl)
  then show ?case by (intro exI [of _ "st"]) simp
next
  case (11 ic ds a k pre suf caps)
  then have "k (pre, suf, caps) = Some res" by (auto split: option.splits)
  then have "k (pre, suf, caps) = Some res \<and> reaches 0 (pre, suf, caps) (pre, suf, caps)" by (simp add: reaches_refl)
  then show ?case by (intro exI [of _ "(pre, suf, caps)"]) simp
next
  case (12 ic ds k pre suf caps)
  then have "k (pre, suf, caps) = Some res" by (auto split: if_splits)
  then have "k (pre, suf, caps) = Some res \<and> reaches 0 (pre, suf, caps) (pre, suf, caps)" by (simp add: reaches_refl)
  then show ?case by (intro exI [of _ "(pre, suf, caps)"]) simp
next
  case (13 ic ds k pre suf caps)
  then have "k (pre, suf, caps) = Some res" by (auto split: if_splits)
  then have "k (pre, suf, caps) = Some res \<and> reaches 0 (pre, suf, caps) (pre, suf, caps)" by (simp add: reaches_refl)
  then show ?case by (intro exI [of _ "(pre, suf, caps)"]) simp
qed

section \<open>Properties of \<^verbatim>\<open>normalizeText\<close>\<close>

subsection \<open>The replacement of runs of spaces\<close>

abbreviation isSp :: "codeunit \<Rightarrow> bool" where
  "isSp c \<equiv> c = 0x20"

lemma star_space:
  "rxm False False (Rep 0 None True (Lit 0x20)) Some (pre, suf, caps)
     = Some (rev (takeWhile isSp suf) @ pre, dropWhile isSp suf, caps)"
proof (induction suf arbitrary: pre)
  case Nil
  show ?case by (simp add: charOk_def)
next
  case (Cons c cs)
  show ?case
  proof (cases "c = 0x20")
    case True
    then show ?thesis
      by (subst rxm.simps) (simp add: charOk_def Cons.IH del: rxm.simps(7))
  next
    case False
    then show ?thesis
      by (subst rxm.simps) (simp add: charOk_def del: rxm.simps(7))
  qed
qed

lemma execAt_spaces:
  "execAt spacesRegex pre suf = (case suf of [] \<Rightarrow> None
     | c # cs \<Rightarrow> if c = 0x20 then Some (rev (takeWhile isSp cs) @ c # pre, dropWhile isSp cs, [])
                else None)"
  by (cases suf) (simp_all add: spacesRegex_def cu_def charOk_def star_space del: rxm.simps(7) add: rxm.simps(7) [of _ _ "Suc 0"])

fun collapse :: "jstring \<Rightarrow> jstring" where
  "collapse [] = []"
| "collapse [c] = [c]"
| "collapse (c # d # cs) = (if c = 0x20 \<and> d = 0x20 then collapse (d # cs) else c # collapse (d # cs))"

lemma collapse_space: "collapse (0x20 # cs) = 0x20 # collapse (dropWhile isSp cs)"
  by (induction cs) simp_all

lemma collapse_other: "c \<noteq> 0x20 \<Longrightarrow> collapse (c # cs) = c # collapse cs"
  by (cases cs) simp_all

lemma js_space: "js '' '' = [0x20]"
  by (simp add: js_def cu_def)

lemma replaceLoop_spaces: "replaceLoop spacesRegex [RText (js '' '')] pre suf = collapse suf"
proof (induction suf arbitrary: pre rule: length_induct)
  case (1 suf)
  show ?case
  proof (cases suf)
    case Nil
    then show ?thesis by (subst replaceLoop.simps) (simp add: execAt_spaces)
  next
    case (Cons c cs)
    have le: "length (dropWhile isSp cs) < length suf"
      using length_dropWhile_le [of isSp cs] Cons by simp
    show ?thesis
    proof (cases "c = 0x20")
      case True
      with Cons le 1 [rule_format, OF le] show ?thesis
        by (subst replaceLoop.simps) (simp add: execAt_spaces collapse_space js_space del: replaceLoop.simps)
    next
      case False
      with Cons 1 [rule_format, of cs] show ?thesis
        by (subst replaceLoop.simps) (simp add: execAt_spaces collapse_other js_space del: replaceLoop.simps)
    qed
  qed
qed

lemma normalizeText_collapse:
  "normalizeText s = (if s = [] then [] else
     trim (joinWith [0x0A] (map trim (splitChar 0x0A (collapse (map normalizeChar s))))))"
proof -
  have "isGlobal spacesRegex"
    by (simp add: spacesRegex_def)
  then show ?thesis
    unfolding normalizeText_def stringReplace_def
    by (simp add: replaceLoop_spaces del: replaceLoop.simps)
qed

subsection \<open>Trimming\<close>

lemma trimEnd_prefix: "prefix (trimEnd s) s"
proof -
  have "rev s = takeWhile isWhiteSpace (rev s) @ dropWhile isWhiteSpace (rev s)"
    by simp
  then have "rev (rev s) = rev (takeWhile isWhiteSpace (rev s) @ dropWhile isWhiteSpace (rev s))"
    by simp
  then have "s = rev (dropWhile isWhiteSpace (rev s)) @ rev (takeWhile isWhiteSpace (rev s))"
    by (simp only: rev_rev_ident rev_append)
  then show ?thesis
    unfolding trimEnd_def by (rule prefixI)
qed

lemma trimStart_suffix: "suffix (trimStart s) s"
  unfolding trimStart_def by (rule suffix_dropWhile)

lemma trim_sublist: "sublist (trim s) s"
proof -
  have "sublist (trim s) (trimStart s)"
    unfolding trim_def by (rule prefix_imp_sublist [OF trimEnd_prefix])
  moreover have "sublist (trimStart s) s"
    by (rule suffix_imp_sublist [OF trimStart_suffix])
  ultimately show ?thesis
    by (rule sublist_order.order_trans)
qed

lemma set_trim: "set (trim s) \<subseteq> set s"
  using trim_sublist [of s] by (rule set_mono_sublist)

definition trimmed :: "jstring \<Rightarrow> bool" where
  "trimmed x = (x = [] \<or> (\<not> isWhiteSpace (hd x) \<and> \<not> isWhiteSpace (last x)))"

lemma trimStart_id: "trimStart x = x \<longleftrightarrow> x = [] \<or> \<not> isWhiteSpace (hd x)"
  unfolding trimStart_def by (rule dropWhile_eq_self_iff)

lemma trimEnd_id: "trimEnd x = x \<longleftrightarrow> x = [] \<or> \<not> isWhiteSpace (last x)"
proof -
  have "trimEnd x = x \<longleftrightarrow> dropWhile isWhiteSpace (rev x) = rev x"
    unfolding trimEnd_def by (metis rev_rev_ident)
  also have "\<dots> \<longleftrightarrow> rev x = [] \<or> \<not> isWhiteSpace (hd (rev x))"
    by (rule dropWhile_eq_self_iff)
  finally show ?thesis
    by (cases "x = []") (simp_all add: hd_rev)
qed

lemma trimmed_trim_id: "trimmed x \<Longrightarrow> trim x = x"
  by (auto simp: trimmed_def trim_def trimStart_id [THEN iffD2] trimEnd_id [THEN iffD2])

lemma trimmed_trim: "trimmed (trim x)"
proof (cases "trim x = []")
  case True
  then show ?thesis by (simp add: trimmed_def)
next
  case False
  define y where "y = trimStart x"
  have z: "trim x = trimEnd y"
    by (simp add: trim_def y_def)
  from False z have ne: "y \<noteq> []"
    by (auto simp: trimEnd_def)
  then have "\<not> isWhiteSpace (hd y)"
    unfolding y_def trimStart_def by (rule hd_dropWhile)
  moreover have "hd (trimEnd y) = hd y"
  proof -
    from trimEnd_prefix [of y] obtain zs where "y = trimEnd y @ zs"
      by (auto simp: prefix_def)
    moreover from False z have "trimEnd y \<noteq> []" by simp
    ultimately show ?thesis by (metis hd_append2)
  qed
  moreover have "\<not> isWhiteSpace (last (trimEnd y))"
  proof -
    from False z have "dropWhile isWhiteSpace (rev y) \<noteq> []"
      by (simp add: trimEnd_def)
    then have "\<not> isWhiteSpace (hd (dropWhile isWhiteSpace (rev y)))"
      by (rule hd_dropWhile)
    then show ?thesis
      by (simp add: trimEnd_def last_rev)
  qed
  ultimately show ?thesis
    by (simp add: trimmed_def z)
qed

lemma trim_id_iff: "trim x = x \<longleftrightarrow> trimmed x"
  using trimmed_trim [of x] trimmed_trim_id [of x] by auto

lemma trimmed_rev: "trimmed (rev x) = trimmed x"
  by (cases "x = []") (auto simp: trimmed_def hd_rev last_rev)

subsection \<open>Splitting at a character and joining\<close>

lemma splitCharAcc_acc:
  "splitCharAcc sep acc s = (rev acc @ hd (splitCharAcc sep [] s)) # tl (splitCharAcc sep [] s)"
proof (induction s arbitrary: acc)
  case Nil
  show ?case by simp
next
  case (Cons c cs)
  show ?case
    by (simp add: Cons.IH [of "c # acc"] Cons.IH [of "[c]"])
qed

lemma splitChar_Nil: "splitChar sep [] = [[]]"
  by (simp add: splitChar_def)

lemma splitChar_Cons:
  "splitChar sep (c # cs) = (if c = sep then [] # splitChar sep cs
     else (c # hd (splitChar sep cs)) # tl (splitChar sep cs))"
  unfolding splitChar_def by (simp add: splitCharAcc_acc [of sep "[c]"])

lemma splitChar_nonempty: "splitChar sep s \<noteq> []"
  by (cases s) (simp_all add: splitChar_Nil splitChar_Cons)

lemma joinWith_Cons: "joinWith sep (x # xs) = (if xs = [] then x else x @ sep @ joinWith sep xs)"
  by (cases xs) simp_all

lemma join_split: "joinWith [sep] (splitChar sep s) = s"
proof (induction s)
  case Nil
  show ?case by (simp add: splitChar_Nil)
next
  case (Cons c cs)
  obtain h t where ht: "splitChar sep cs = h # t"
    using splitChar_nonempty [of sep cs] by (cases "splitChar sep cs") auto
  with Cons show ?case
    by (auto simp: splitChar_Cons joinWith_Cons)
qed

lemma split_pieces_nosep: "x \<in> set (splitChar sep s) \<Longrightarrow> sep \<notin> set x"
proof (induction s arbitrary: x)
  case Nil
  then show ?case by (simp add: splitChar_Nil)
next
  case (Cons c cs)
  obtain h t where ht: "splitChar sep cs = h # t"
    using splitChar_nonempty [of sep cs] by (cases "splitChar sep cs") auto
  with Cons.prems Cons.IH [of h] Cons.IH [of x] show ?case
    by (auto simp: splitChar_Cons split: if_splits)
qed

lemma split_single: "sep \<notin> set x \<Longrightarrow> splitChar sep x = [x]"
  by (induction x) (auto simp: splitChar_Nil splitChar_Cons)

lemma split_append_sep: "sep \<notin> set x \<Longrightarrow> splitChar sep (x @ sep # t) = x # splitChar sep t"
  by (induction x) (auto simp: splitChar_Cons)

lemma split_join:
  "xs \<noteq> [] \<Longrightarrow> \<forall>x \<in> set xs. sep \<notin> set x \<Longrightarrow> splitChar sep (joinWith [sep] xs) = xs"
proof (induction xs)
  case Nil
  then show ?case by simp
next
  case (Cons x xs)
  show ?case
  proof (cases "xs = []")
    case True
    with Cons.prems show ?thesis by (simp add: split_single)
  next
    case False
    with Cons show ?thesis by (simp add: joinWith_Cons split_append_sep)
  qed
qed

lemma split_hd_prefix: "prefix (hd (splitChar sep s)) s"
  by (induction s) (simp_all add: splitChar_Nil splitChar_Cons)

lemma split_sublist: "x \<in> set (splitChar sep s) \<Longrightarrow> sublist x s"
proof (induction s arbitrary: x)
  case Nil
  then show ?case by (simp add: splitChar_Nil)
next
  case (Cons c cs)
  show ?case
  proof (cases "c = sep")
    case True
    with Cons.prems have "x = [] \<or> x \<in> set (splitChar sep cs)"
      by (simp add: splitChar_Cons)
    with Cons.IH show ?thesis
      by (auto intro: sublist_Cons_right [THEN iffD2])
  next
    case False
    with Cons.prems have "x = c # hd (splitChar sep cs) \<or> x \<in> set (tl (splitChar sep cs))"
      by (simp add: splitChar_Cons)
    then show ?thesis
    proof
      assume "x = c # hd (splitChar sep cs)"
      then have "prefix x (c # cs)"
        using split_hd_prefix [of sep cs] by simp
      then show ?thesis by (rule prefix_imp_sublist)
    next
      assume "x \<in> set (tl (splitChar sep cs))"
      then have "x \<in> set (splitChar sep cs)"
        by (rule list.set_sel(2) [rotated]) (simp add: splitChar_nonempty)
      then have "sublist x cs" by (rule Cons.IH)
      then show ?thesis by (auto intro: sublist_Cons_right [THEN iffD2])
    qed
  qed
qed

lemma split_append:
  "splitChar sep (a @ b) = butlast (splitChar sep a)
     @ [last (splitChar sep a) @ hd (splitChar sep b)] @ tl (splitChar sep b)"
proof (induction a)
  case Nil
  show ?case by (simp add: splitChar_Nil splitChar_nonempty)
next
  case (Cons c a)
  obtain h t where ht: "splitChar sep a = h # t"
    using splitChar_nonempty [of sep a] by (cases "splitChar sep a") auto
  show ?case
    by (cases "t = []") (simp_all add: splitChar_Cons Cons.IH ht)
qed

lemma split_rev: "splitChar sep (rev s) = rev (map rev (splitChar sep s))"
proof (induction s)
  case Nil
  show ?case by (simp add: splitChar_Nil)
next
  case (Cons c s)
  obtain h t where ht: "splitChar sep s = h # t"
    using splitChar_nonempty [of sep s] by (cases "splitChar sep s") auto
  have one: "splitChar sep [c] = (if c = sep then [[], []] else [[c]])"
    by (simp add: splitChar_Cons splitChar_Nil)
  show ?case
    by (simp add: split_append [of sep "rev s" "[c]"] Cons.IH ht one splitChar_Cons splitChar_Nil butlast_append)
qed

subsection \<open>Texts that \<^verbatim>\<open>normalizeText\<close> leaves alone\<close>

definition linesTrimmed :: "jstring \<Rightarrow> bool" where
  "linesTrimmed t = (\<forall>x \<in> set (splitChar 0x0A t). trimmed x)"

lemma linesTrimmed_trimStart: "linesTrimmed t \<Longrightarrow> linesTrimmed (dropWhile isWhiteSpace t)"
proof (induction t)
  case Nil
  then show ?case by simp
next
  case (Cons c cs)
  show ?case
  proof (cases "isWhiteSpace c")
    case False
    with Cons.prems show ?thesis by simp
  next
    case True
    have "c = 0x0A"
    proof (rule ccontr)
      assume "c \<noteq> 0x0A"
      with Cons.prems have "trimmed (c # hd (splitChar 0x0A cs))"
        by (simp add: linesTrimmed_def splitChar_Cons)
      with True show False by (simp add: trimmed_def)
    qed
    with Cons.prems have "linesTrimmed cs"
      by (simp add: linesTrimmed_def splitChar_Cons)
    with True Cons.IH show ?thesis by simp
  qed
qed

lemma linesTrimmed_rev: "linesTrimmed (rev t) = linesTrimmed t"
  by (simp add: linesTrimmed_def split_rev trimmed_rev)

lemma linesTrimmed_trim: "linesTrimmed t \<Longrightarrow> linesTrimmed (trim t)"
  unfolding trim_def trimEnd_def trimStart_def
  by (simp only: linesTrimmed_rev linesTrimmed_trimStart)

lemma linesTrimmed_join:
  assumes "xs \<noteq> []" and "\<forall>x \<in> set xs. 0x0A \<notin> set x"
  shows "linesTrimmed (joinWith [0x0A] (map trim xs))"
proof -
  have "\<forall>x \<in> set (map trim xs). 0x0A \<notin> set x"
    using assms(2) set_trim by fastforce
  with assms(1) have "splitChar 0x0A (joinWith [0x0A] (map trim xs)) = map trim xs"
    by (intro split_join) simp_all
  then show ?thesis
    by (simp add: linesTrimmed_def trimmed_trim)
qed

fun nodouble :: "jstring \<Rightarrow> bool" where
  "nodouble (c # d # cs) = (\<not> (c = 0x20 \<and> d = 0x20) \<and> nodouble (d # cs))"
| "nodouble cs = True"

lemma nodouble_sublist: "nodouble t \<longleftrightarrow> \<not> sublist [0x20, 0x20] t"
  by (induction t rule: nodouble.induct) (auto simp: sublist_Cons_right)

lemma nodouble_mono: "sublist x t \<Longrightarrow> nodouble t \<Longrightarrow> nodouble x"
  unfolding nodouble_sublist using sublist_order.order_trans by blast

lemma collapse_hd: "\<exists>r. collapse (c # cs) = c # r"
  by (induction cs) auto

lemma nodouble_collapse: "nodouble (collapse t)"
proof (induction t rule: collapse.induct)
  case (3 c d cs)
  obtain r where r: "collapse (d # cs) = d # r"
    using collapse_hd by blast
  with 3 show ?case by auto
qed simp_all

lemma collapse_id: "nodouble t \<Longrightarrow> collapse t = t"
  by (induction t rule: collapse.induct) auto

lemma set_collapse: "set (collapse t) \<subseteq> set t"
  by (induction t rule: collapse.induct) auto

lemma nodouble_line: "nodouble x \<Longrightarrow> nodouble r \<Longrightarrow> nodouble (x @ 0x0A # r)"
  by (induction x rule: nodouble.induct) (auto elim: nodouble.elims)

lemma nodouble_join: "\<forall>x \<in> set xs. nodouble x \<Longrightarrow> nodouble (joinWith [0x0A] xs)"
  by (induction xs) (auto simp: joinWith_Cons nodouble_line)

lemma set_joinWith: "set (joinWith sep xs) \<subseteq> set sep \<union> \<Union> (set ` set xs)"
  by (induction xs) (auto simp: joinWith_Cons split: if_splits)

lemma normalizeChar_idem: "normalizeChar (normalizeChar c) = normalizeChar c"
  by (simp add: normalizeChar_def Let_def)

lemma normalizeChar_newline: "normalizeChar 0x0A = 0x0A"
  by (simp add: normalizeChar_def Let_def)

lemma normalizeText_fixpoint:
  assumes "\<forall>c \<in> set t. normalizeChar c = c" and "nodouble t" and "linesTrimmed t" and "trimmed t"
  shows "normalizeText t = t"
proof -
  have "map normalizeChar t = t"
    using assms(1) by (simp add: map_idI)
  moreover have "map trim (splitChar 0x0A t) = splitChar 0x0A t"
    using assms(3) by (intro map_idI) (simp add: linesTrimmed_def trimmed_trim_id)
  ultimately show ?thesis
    using assms(2,4) by (simp add: normalizeText_collapse collapse_id join_split trimmed_trim_id)
qed

lemma normalizeText_normal:
  "(\<forall>c \<in> set (normalizeText s). normalizeChar c = c) \<and> nodouble (normalizeText s)
     \<and> linesTrimmed (normalizeText s) \<and> trimmed (normalizeText s)"
proof (cases "s = []")
  case True
  then show ?thesis
    by (simp add: normalizeText_collapse linesTrimmed_def splitChar_Nil trimmed_def)
next
  case False
  define body where "body = collapse (map normalizeChar s)"
  define ls where "ls = splitChar 0x0A body"
  define joined where "joined = joinWith [0x0A] (map trim ls)"
  have n: "normalizeText s = trim joined"
    using False by (simp add: normalizeText_collapse joined_def ls_def body_def)
  have sub: "sublist x body" if "x \<in> set ls" for x
    using that unfolding ls_def by (rule split_sublist)
  have chars: "normalizeChar c = c" if "c \<in> set body" for c
  proof -
    from that set_collapse have "c \<in> set (map normalizeChar s)"
      unfolding body_def by blast
    then show ?thesis by (auto simp: normalizeChar_idem)
  qed
  have "normalizeChar c = c" if "c \<in> set (trim joined)" for c
  proof -
    from that set_trim have "c \<in> set joined" by blast
    with set_joinWith [of "[0x0A]" "map trim ls"]
    have "c = 0x0A \<or> (\<exists>x \<in> set ls. c \<in> set (trim x))"
      unfolding joined_def by auto
    then show ?thesis
    proof
      assume "c = 0x0A"
      then show ?thesis by (simp add: normalizeChar_newline)
    next
      assume "\<exists>x \<in> set ls. c \<in> set (trim x)"
      then obtain x where x: "x \<in> set ls" "c \<in> set (trim x)" by blast
      from x(2) set_trim have "c \<in> set x" by blast
      with set_mono_sublist [OF sub [OF x(1)]] have "c \<in> set body" by blast
      then show ?thesis by (rule chars)
    qed
  qed
  moreover have "nodouble (trim joined)"
  proof -
    have "nodouble (trim x)" if "x \<in> set ls" for x
    proof -
      have "nodouble x"
        using sub [OF that] nodouble_collapse [of "map normalizeChar s"]
        unfolding body_def by (rule nodouble_mono)
      with trim_sublist show ?thesis by (rule nodouble_mono)
    qed
    then have "nodouble joined"
      unfolding joined_def by (intro nodouble_join) auto
    with trim_sublist show ?thesis by (rule nodouble_mono)
  qed
  moreover have "linesTrimmed (trim joined)"
  proof -
    have "ls \<noteq> []"
      by (simp add: ls_def splitChar_nonempty)
    moreover have "\<forall>x \<in> set ls. 0x0A \<notin> set x"
      unfolding ls_def using split_pieces_nosep by blast
    ultimately have "linesTrimmed joined"
      unfolding joined_def by (rule linesTrimmed_join)
    then show ?thesis by (rule linesTrimmed_trim)
  qed
  ultimately show ?thesis
    unfolding n using trimmed_trim by blast
qed

text \<open>
  Claim C4. \<^verbatim>\<open>normalizeText\<close> is idempotent: for every string \<open>s\<close>,
  \<^verbatim>\<open>normalizeText(normalizeText(s))\<close> equals \<^verbatim>\<open>normalizeText(s)\<close>.
\<close>

theorem normalizeText_idempotent: "normalizeText (normalizeText s) = normalizeText s"
  using normalizeText_normal [of s] by (intro normalizeText_fixpoint) simp_all

text \<open>A text with a tab, runs of spaces and padded lines, and its normal form.\<close>

definition spacedText :: jstring where
  "spacedText = js '' a'' @ [0x09] @ js '' b  '' @ [0x0A] @ js ''  c ''"

lemma spacedText_normal: "normalizeText spacedText = js ''a b'' @ [0x0A] @ js ''c''"
  by code_simp

theorem normalizeText_idempotent_witness:
  "normalizeText (js ''a b'' @ [0x0A] @ js ''c'') = js ''a b'' @ [0x0A] @ js ''c''"
  using normalizeText_idempotent [of spacedText] by (simp only: spacedText_normal)

section \<open>Emitted clauses carry a type and a text\<close>

definition hasText :: "jstring \<Rightarrow> bool" where
  "hasText s = (\<exists>c \<in> set s. \<not> isWhiteSpace c)"

lemma hasText_nonempty: "hasText s \<Longrightarrow> s \<noteq> []"
  by (auto simp: hasText_def)

lemma hasText_trim: "hasText s \<Longrightarrow> hasText (trim s)"
proof -
  assume "hasText s"
  then obtain c where c: "c \<in> set s" "\<not> isWhiteSpace c"
    by (auto simp: hasText_def)
  define y where "y = dropWhile isWhiteSpace s"
  have "s = takeWhile isWhiteSpace s @ y"
    by (simp add: y_def)
  then have "set s = set (takeWhile isWhiteSpace s) \<union> set y"
    by (metis set_append)
  with c have cy: "c \<in> set y"
    by (auto dest: set_takeWhileD)
  have "rev y = takeWhile isWhiteSpace (rev y) @ dropWhile isWhiteSpace (rev y)"
    by simp
  then have "set (rev y) = set (takeWhile isWhiteSpace (rev y)) \<union> set (dropWhile isWhiteSpace (rev y))"
    by (metis set_append)
  with cy c(2) have "c \<in> set (dropWhile isWhiteSpace (rev y))"
    by (auto dest: set_takeWhileD)
  then have "c \<in> set (trim s)"
    by (simp add: trim_def trimEnd_def trimStart_def y_def)
  with c(2) show ?thesis
    by (auto simp: hasText_def)
qed

lemma trimmed_hasText: "trimmed s \<Longrightarrow> s \<noteq> [] \<Longrightarrow> hasText s"
  unfolding trimmed_def hasText_def by (auto intro: bexI [of _ "hd s"])

lemma suffix_hasText:
  assumes "trimmed s" and "suffix g s" and "g \<noteq> []"
  shows "hasText g"
proof -
  from assms(2) obtain u where s: "s = u @ g"
    by (auto simp: suffix_def)
  with assms(3) have "last g = last s" by simp
  moreover from s assms(3) have "s \<noteq> []" by simp
  ultimately have "\<not> isWhiteSpace (last g)"
    using assms(1) by (simp add: trimmed_def)
  with assms(3) show ?thesis
    unfolding hasText_def by (auto intro: bexI [of _ "last g"])
qed

lemma collapse_set: "set (collapse t) = set t"
proof (induction t rule: collapse.induct)
  case (3 c d cs)
  obtain r where "collapse (d # cs) = d # r"
    using collapse_hd by blast
  with 3 show ?case by auto
qed simp_all

lemma set_joinWith_member: "x \<in> set xs \<Longrightarrow> set x \<subseteq> set (joinWith sep xs)"
  by (induction xs) (auto simp: joinWith_Cons)

lemma normalizeChar_text: "\<not> isWhiteSpace c \<Longrightarrow> normalizeChar c = c"
  by (auto simp: normalizeChar_def Let_def isWhiteSpace_def)

lemma hasText_normalizeText:
  assumes "hasText s"
  shows "hasText (normalizeText s)"
proof -
  from assms obtain c where c: "c \<in> set s" "\<not> isWhiteSpace c"
    by (auto simp: hasText_def)
  then have ne: "s \<noteq> []" by auto
  define body where "body = collapse (map normalizeChar s)"
  from c have "c \<in> set (map normalizeChar s)"
    using normalizeChar_text [OF c(2)] by force
  then have "c \<in> set body"
    by (simp add: body_def collapse_set)
  then have "c \<in> set (joinWith [0x0A] (splitChar 0x0A body))"
    by (simp add: join_split)
  with set_joinWith [of "[0x0A]" "splitChar 0x0A body"] c(2)
  obtain x where x: "x \<in> set (splitChar 0x0A body)" "c \<in> set x"
    by (auto simp: isWhiteSpace_def)
  from x(2) c(2) have "hasText x"
    by (auto simp: hasText_def)
  then have "hasText (trim x)" by (rule hasText_trim)
  moreover from x(1) have "trim x \<in> set (map trim (splitChar 0x0A body))" by simp
  ultimately have "hasText (joinWith [0x0A] (map trim (splitChar 0x0A body)))"
    using set_joinWith_member unfolding hasText_def by blast
  then have "hasText (trim (joinWith [0x0A] (map trim (splitChar 0x0A body))))"
    by (rule hasText_trim)
  with ne show ?thesis
    by (simp add: normalizeText_collapse body_def)
qed

subsection \<open>The body group of the clause-number patterns\<close>

lemma seq_tail:
  "rxm ic ds (Seq a b) k st = Some res \<Longrightarrow>
     \<exists>st1. rxm ic ds b k st1 = Some res \<and> reaches (minlen a) st st1"
  using rxm_passes [of ic ds a "rxm ic ds b k" st res] by simp

lemma eol_end: "rxm ic ds Eol k st = Some res \<Longrightarrow> fst (snd st) = [] \<and> k st = Some res"
  by (cases st) (auto split: if_splits)

lemma body_group:
  assumes "rxm ic ds (Seq (Grp n (Plus Dot)) Eol) Some st = Some res"
  shows "fst (snd st) \<noteq> [] \<and> map_of (snd (snd res)) n = Some (fst (snd st))"
proof -
  obtain pre suf caps where st: "st = (pre, suf, caps)" by (cases st)
  let ?k = "\<lambda>(pre', suf', caps'). rxm ic ds Eol Some (pre', suf', (n, rev (take (length pre' - length pre) pre')) # caps')"
  from assms have "rxm ic ds (Plus Dot) ?k (pre, suf, caps) = Some res"
    unfolding st by (simp only: rxm.simps(5) rxm.simps(8))
  from rxm_passes [OF this] obtain st' where
    k: "?k st' = Some res" and r: "reaches (minlen (Plus Dot)) (pre, suf, caps) st'"
    by blast
  obtain pre' suf' caps' where st': "st' = (pre', suf', caps')" by (cases st')
  from r obtain w where w: "suf = w @ suf'" "pre' = rev w @ pre" "1 \<le> length w"
    by (auto simp: reaches_def st')
  from k have e: "suf' = []" and res: "res = (pre', suf', (n, rev (take (length pre' - length pre) pre')) # caps')"
    by (auto simp: st' split: if_splits)
  from w e have "rev (take (length pre' - length pre) pre') = suf" by simp
  with res w e show ?thesis
    by (auto simp: st)
qed

lemma rxSearch_exec:
  "rxSearch re pre suf = Some (p, st) \<Longrightarrow> \<exists>suf'. execAt re p suf' = Some st \<and> rev p @ suf' = rev pre @ suf"
proof (induction suf arbitrary: pre)
  case Nil
  then show ?case by (auto split: option.splits)
next
  case (Cons c cs)
  show ?case
  proof (cases "execAt re pre (c # cs)")
    case None
    with Cons.prems have "rxSearch re (c # pre) cs = Some (p, st)" by simp
    from Cons.IH [OF this] show ?thesis by simp
  next
    case (Some a)
    with Cons.prems show ?thesis by auto
  qed
qed

definition endsWithBody :: "regexp \<Rightarrow> bool" where
  \<comment> \<open>A pattern of four parts the last of which is \<^verbatim>\<open>(.+)$\<close> as group 2.\<close>
  "endsWithBody re = (\<exists>a b c fl. re = RegExp (Seq a (Seq b (Seq c (Seq (Grp 2 (Plus Dot)) Eol)))) fl)"

lemma body_is_suffix:
  assumes "endsWithBody re" and "stringMatch t re = Some m"
  shows "groupStr 2 m \<noteq> [] \<and> suffix (groupStr 2 m) t"
proof -
  from assms(1) obtain a b c fl where
    re: "re = RegExp (Seq a (Seq b (Seq c (Seq (Grp 2 (Plus Dot)) Eol)))) fl"
    by (auto simp: endsWithBody_def)
  from assms(2) obtain p st where s: "rxSearch re [] t = Some (p, st)" and m: "m = (matched p st, snd (snd st))"
    by (auto simp: stringMatch_def split: option.splits)
  from rxSearch_exec [OF s] obtain suf where e: "execAt re p suf = Some st" and t: "rev p @ suf = t"
    by auto
  define ic where "ic = (CHR ''i'' \<in> set fl)"
  define ds where "ds = (CHR ''s'' \<in> set fl)"
  from e have "rxm ic ds (Seq a (Seq b (Seq c (Seq (Grp 2 (Plus Dot)) Eol)))) Some (p, suf, []) = Some st"
    by (simp only: re execAt.simps ic_def ds_def)
  from seq_tail [OF this] obtain s1 where
    s1: "rxm ic ds (Seq b (Seq c (Seq (Grp 2 (Plus Dot)) Eol))) Some s1 = Some st" "reaches (minlen a) (p, suf, []) s1"
    by blast
  from seq_tail [OF s1(1)] obtain s2 where
    s2: "rxm ic ds (Seq c (Seq (Grp 2 (Plus Dot)) Eol)) Some s2 = Some st" "reaches (minlen b) s1 s2"
    by blast
  from seq_tail [OF s2(1)] obtain s3 where
    s3: "rxm ic ds (Seq (Grp 2 (Plus Dot)) Eol) Some s3 = Some st" "reaches (minlen c) s2 s3"
    by blast
  have "textOf s3 = textOf (p, suf, [])"
    using reaches_text [OF s1(2)] reaches_text [OF s2(2)] reaches_text [OF s3(2)] by simp
  then have whole: "rev (fst s3) @ fst (snd s3) = t"
    by (simp add: textOf_def t)
  from body_group [OF s3(1)] have g: "fst (snd s3) \<noteq> []" "map_of (snd (snd st)) 2 = Some (fst (snd s3))"
    by simp_all
  from g(2) have "groupStr 2 m = fst (snd s3)"
    by (simp add: groupStr_def group_def m)
  with g(1) whole show ?thesis
    by (auto simp: suffix_def)
qed

lemma clauseNumberPatterns_body:
  "endsWithBody (clauseNumberPatterns ! 0)" "endsWithBody (clauseNumberPatterns ! 1)"
  "endsWithBody (clauseNumberPatterns ! 2)" "endsWithBody (clauseNumberPatterns ! 3)"
  by (simp_all add: clauseNumberPatterns_def endsWithBody_def)

lemma parse_body:
  assumes "hasText b"
  shows "hasText (snd (parseClauseNumber b))"
proof -
  define t where "t = trim b"
  have tr: "trimmed t"
    by (simp add: t_def trimmed_trim)
  have ht: "hasText t"
    unfolding t_def using assms by (rule hasText_trim)
  have grp: "hasText (trim (groupStr 2 m))" if "endsWithBody re" "stringMatch t re = Some m" for re m
  proof -
    from body_is_suffix [OF that] have "groupStr 2 m \<noteq> []" "suffix (groupStr 2 m) t"
      by simp_all
    with tr have "hasText (groupStr 2 m)"
      by (intro suffix_hasText [of t]) simp_all
    then show ?thesis by (rule hasText_trim)
  qed
  have rest: "hasText (trim x)" if "0 < length (trim x)" for x
    using that by (intro trimmed_hasText trimmed_trim) simp
  show ?thesis
  proof (cases "stringMatch t (clauseNumberPatterns ! 0)")
    case (Some m)
    with grp [OF clauseNumberPatterns_body(1) Some] show ?thesis
      by (simp add: parseClauseNumber_def Let_def t_def [symmetric])
  next
    case n0: None
    show ?thesis
    proof (cases "stringMatch t (clauseNumberPatterns ! 1)")
      case (Some m)
      with n0 grp [OF clauseNumberPatterns_body(2) Some] show ?thesis
        by (simp add: parseClauseNumber_def Let_def t_def [symmetric])
    next
      case n1: None
      show ?thesis
      proof (cases "stringMatch t (clauseNumberPatterns ! 2)")
        case (Some m)
        with n0 n1 grp [OF clauseNumberPatterns_body(3) Some] rest show ?thesis
          by (simp add: parseClauseNumber_def Let_def t_def [symmetric] split: option.splits)
      next
        case n2: None
        show ?thesis
        proof (cases "stringMatch t (clauseNumberPatterns ! 3)")
          case (Some m)
          with n0 n1 n2 grp [OF clauseNumberPatterns_body(4) Some] show ?thesis
            by (simp add: parseClauseNumber_def Let_def t_def [symmetric])
        next
          case None
          with n0 n1 n2 ht show ?thesis
            by (simp add: parseClauseNumber_def Let_def t_def [symmetric])
        qed
      qed
    qed
  qed
qed

lemma subRef_whole:
  assumes "stringMatch t subRefRegex = Some m"
  shows "groupStr 0 m \<noteq> [] \<and> suffix (groupStr 0 m) t"
proof -
  obtain a1 a2 a3 a4 a5 fl where
    re: "subRefRegex = RegExp (Seq a1 (Seq a2 (Seq a3 (Seq a4 (Seq a5 Eol))))) fl"
    and len: "1 \<le> minlen (Seq a1 (Seq a2 (Seq a3 (Seq a4 (Seq a5 Eol)))))"
    by (simp add: subRefRegex_def)
  from assms obtain p st where s: "rxSearch subRefRegex [] t = Some (p, st)"
    and m: "m = (matched p st, snd (snd st))"
    by (auto simp: stringMatch_def split: option.splits)
  from rxSearch_exec [OF s] obtain suf where e: "execAt subRefRegex p suf = Some st" and t: "rev p @ suf = t"
    by auto
  define ic where "ic = (CHR ''i'' \<in> set fl)"
  define ds where "ds = (CHR ''s'' \<in> set fl)"
  from e have run: "rxm ic ds (Seq a1 (Seq a2 (Seq a3 (Seq a4 (Seq a5 Eol))))) Some (p, suf, []) = Some st"
    by (simp only: re execAt.simps ic_def ds_def)
  from rxm_passes [OF run] len obtain w where
    w: "suf = w @ fst (snd st)" "fst st = rev w @ p" "1 \<le> length w"
    by (auto simp: reaches_def)
  from seq_tail [OF run] obtain s1 where
    s1: "rxm ic ds (Seq a2 (Seq a3 (Seq a4 (Seq a5 Eol)))) Some s1 = Some st" by blast
  from seq_tail [OF s1] obtain s2 where
    s2: "rxm ic ds (Seq a3 (Seq a4 (Seq a5 Eol))) Some s2 = Some st" by blast
  from seq_tail [OF s2] obtain s3 where
    s3: "rxm ic ds (Seq a4 (Seq a5 Eol)) Some s3 = Some st" by blast
  from seq_tail [OF s3] obtain s4 where
    s4: "rxm ic ds (Seq a5 Eol) Some s4 = Some st" by blast
  from seq_tail [OF s4] obtain s5 where
    s5: "rxm ic ds Eol Some s5 = Some st" by blast
  from eol_end [OF s5] have "fst (snd st) = []" by auto
  with w have "matched p st = suf" "suf \<noteq> []"
    by (auto simp: matched_def)
  with t show ?thesis
    by (auto simp: groupStr_def group_def m suffix_def)
qed

lemma subclauseText_hasText:
  assumes "30 \<le> length (trim sb)"
  shows "hasText (subclauseTextOf (trim sb))"
proof (cases "stringMatch (trim sb) subRefRegex")
  case None
  with assms show ?thesis
    by (auto simp: subclauseTextOf_def intro!: trimmed_hasText trimmed_trim)
next
  case (Some m)
  from subRef_whole [OF Some] have "hasText (groupStr 0 m)"
    by (intro suffix_hasText [of "trim sb"]) (simp_all add: trimmed_trim)
  with Some show ?thesis
    by (simp add: subclauseTextOf_def)
qed

definition filled :: "ExtractedClause \<Rightarrow> bool" where
  "filled c = (clause_type c \<noteq> [] \<and> clause_text c \<noteq> [])"

lemma subclauseLoop_filled:
  "list_all filled acc \<Longrightarrow> list_all filled (subclauseLoop p repo bs acc)"
proof (induction bs arbitrary: acc)
  case Nil
  then show ?case by simp
next
  case (Cons b bs)
  from subclauseLoop_cases [of p repo b bs acc] show ?case
  proof (elim disjE exE conjE)
    assume "subclauseLoop p repo (b # bs) acc = subclauseLoop p repo bs acc"
    with Cons show ?thesis by simp
  next
    fix ty
    assume ty: "ty \<noteq> []" and len: "30 \<le> length (trim b)"
      and eq: "subclauseLoop p repo (b # bs) acc
                 = subclauseLoop p repo bs (acc @ [subclauseOf ty p (subclauseTextOf (trim b))])"
    from subclauseText_hasText [OF len] have "normalizeText (subclauseTextOf (trim b)) \<noteq> []"
      by (intro hasText_nonempty hasText_normalizeText)
    with ty have "filled (subclauseOf ty p (subclauseTextOf (trim b)))"
      by (simp add: filled_def subclauseOf_def)
    with Cons.prems have "list_all filled (acc @ [subclauseOf ty p (subclauseTextOf (trim b))])"
      by simp
    from Cons.IH [OF this] show ?thesis
      unfolding eq .
  qed
qed

lemma emit_filled:
  assumes "hasText b" and "emit b repo = Some new"
  shows "list_all filled new"
proof -
  from emit_cases [OF assms(2)] show ?thesis
  proof (elim disjE exE conjE)
    fix ty m s
    assume ty: "ty \<noteq> []"
      and new: "new = [regularClause ty (fst (parseClauseNumber b)) (snd (parseClauseNumber b)) m s]"
    from parse_body [OF assms(1)] have "normalizeText (snd (parseClauseNumber b)) \<noteq> []"
      by (intro hasText_nonempty hasText_normalizeText)
    with ty show ?thesis
      by (simp add: new filled_def regularClause_def)
  next
    assume "new = extractSubclausesFromMiscellaneous (fst (parseClauseNumber b)) b repo"
    then show ?thesis
      by (simp add: extractSubclausesFromMiscellaneous_def subclauseLoop_filled)
  qed
qed

lemma blocksLoop_filled:
  "list_all filled cl \<Longrightarrow> list_all filled (fst (blocksLoop repo bs (cl, seen)))"
proof (induction bs arbitrary: cl seen)
  case Nil
  then show ?case by simp
next
  case (Cons b bs)
  from blocksLoop_cases [of repo b bs cl seen] show ?case
  proof (elim disjE exE conjE)
    assume "blocksLoop repo (b # bs) (cl, seen) = blocksLoop repo bs (cl, seen)"
    with Cons show ?thesis by simp
  next
    fix new
    assume len: "20 \<le> length (trim (stringReplace (trim b) pageNoiseRegex []))"
      and em: "emit (trim (stringReplace (trim b) pageNoiseRegex [])) repo = Some new"
      and eq: "blocksLoop repo (b # bs) (cl, seen) = blocksLoop repo bs (cl @ new, seen @ [trim b])"
    from len have "hasText (trim (stringReplace (trim b) pageNoiseRegex []))"
      by (intro trimmed_hasText trimmed_trim) auto
    from emit_filled [OF this em] Cons.prems have "list_all filled (cl @ new)"
      by simp
    from Cons.IH [OF this] show ?thesis
      unfolding eq .
  qed
qed

text \<open>
  Claim C5. For every document text, repository and schema, every clause in the list returned
  by \<^verbatim>\<open>extractClausesRuleBased\<close> has a non-empty \<^verbatim>\<open>clause_type\<close> and a non-empty
  \<^verbatim>\<open>clause_text\<close>.
\<close>

theorem extracted_clauses_have_type_and_text:
  "c \<in> set (extractClausesRuleBased documentText repositoryClauses userSchema) \<Longrightarrow>
     clause_type c \<noteq> [] \<and> clause_text c \<noteq> []"
proof -
  have "list_all filled (extractClausesRuleBased documentText repositoryClauses userSchema)"
    unfolding extractClausesRuleBased_def by (rule blocksLoop_filled) simp
  then show "c \<in> set (extractClausesRuleBased documentText repositoryClauses userSchema) \<Longrightarrow>
     clause_type c \<noteq> [] \<and> clause_text c \<noteq> []"
    by (simp add: list_all_iff filled_def)
qed

text \<open>Scenario A: both clauses carry a type and a text.\<close>

theorem extracted_clauses_have_type_and_text_witness:
  "map (\<lambda>c. (clause_type c \<noteq> [], clause_text c \<noteq> []))
       (extractClausesRuleBased scenarioA [] (Some numericSchema)) = [(True, True), (True, True)]"
proof -
  let ?cs = "extractClausesRuleBased scenarioA [] (Some numericSchema)"
  have len: "length ?cs = 2"
    by (simp add: scenarioA_result)
  have "map (\<lambda>c. (clause_type c \<noteq> [], clause_text c \<noteq> [])) ?cs = map (\<lambda>c. (True, True)) ?cs"
    using extracted_clauses_have_type_and_text [where documentText = scenarioA and repositoryClauses = "[]"
        and userSchema = "Some numericSchema"]
    by (intro map_cong) auto
  also have "\<dots> = replicate (length ?cs) (True, True)"
    by (rule map_replicate_const)
  also have "\<dots> = [(True, True), (True, True)]"
    unfolding len by (simp add: numeral_2_eq_2)
  finally show ?thesis .
qed

end
